theory Spec2Isabelle
  imports Complex_Main
begin

section \<open>Strings\<close>

text \<open>
  JavaScript strings are modelled as \<^typ>\<open>string\<close>, the UTF-8 encoding of the text: an
  ASCII character is one \<^typ>\<open>char\<close>, any other code point two to four. The role names,
  reference tokens and protocol method names the program compares against are ASCII.
\<close>

definition dq :: string where
  "dq = [CHR 0x22]"

text \<open>
  The code points \<^verbatim>\<open>String.prototype.trim\<close> removes, each in UTF-8: the white space of
  ECMAScript (TAB, VT, FF, U+FEFF and the space separators U+0020, U+00A0, U+1680,
  U+2000 to U+200A, U+202F, U+205F, U+3000) and its line terminators (LF, CR, U+2028,
  U+2029).
\<close>

definition whitespace :: "string list" where
  "whitespace =
     [[CHR 0x09], [CHR 0x0A], [CHR 0x0B], [CHR 0x0C], [CHR 0x0D], [CHR 0x20],
      [CHR 0xC2, CHR 0xA0],
      [CHR 0xE1, CHR 0x9A, CHR 0x80],
      [CHR 0xE2, CHR 0x80, CHR 0x80], [CHR 0xE2, CHR 0x80, CHR 0x81],
      [CHR 0xE2, CHR 0x80, CHR 0x82], [CHR 0xE2, CHR 0x80, CHR 0x83],
      [CHR 0xE2, CHR 0x80, CHR 0x84], [CHR 0xE2, CHR 0x80, CHR 0x85],
      [CHR 0xE2, CHR 0x80, CHR 0x86], [CHR 0xE2, CHR 0x80, CHR 0x87],
      [CHR 0xE2, CHR 0x80, CHR 0x88], [CHR 0xE2, CHR 0x80, CHR 0x89],
      [CHR 0xE2, CHR 0x80, CHR 0x8A],
      [CHR 0xE2, CHR 0x80, CHR 0xA8], [CHR 0xE2, CHR 0x80, CHR 0xA9],
      [CHR 0xE2, CHR 0x80, CHR 0xAF],
      [CHR 0xE2, CHR 0x81, CHR 0x9F],
      [CHR 0xE3, CHR 0x80, CHR 0x80],
      [CHR 0xEF, CHR 0xBB, CHR 0xBF]]"

text \<open>The first of the sequences \<open>ws\<close> that the string starts with.\<close>

definition leading :: "string list \<Rightarrow> string \<Rightarrow> string option" where
  "leading ws s = List.find (\<lambda>w. w \<noteq> [] \<and> take (length w) s = w) ws"

text \<open>Dropping such sequences from the front for as long as there is one.\<close>

function strip :: "string list \<Rightarrow> string \<Rightarrow> string" where
  "strip ws s = (case leading ws s of None \<Rightarrow> s | Some w \<Rightarrow> strip ws (drop (length w) s))"
  by pat_completeness auto
termination
proof (relation "measure (\<lambda>(ws, s). length s)")
  show "wf (measure (\<lambda>(ws, s). length s))" by simp
next
  fix ws :: "string list" and s w :: string
  assume "leading ws s = Some w"
  then have "w \<noteq> []" and "take (length w) s = w"
    by (auto simp: leading_def find_Some_iff)
  then have "s \<noteq> []" and "0 < length w" by auto
  then show "((ws, drop (length w) s), (ws, s)) \<in> measure (\<lambda>(ws, s). length s)"
    by simp
qed

declare strip.simps [simp del]

text \<open>
  \<^verbatim>\<open>String.prototype.trim\<close>: white space and line terminators removed at both ends (at
  the end, the reversed sequences are dropped from the front of the reversed string).
\<close>

definition trim :: "string \<Rightarrow> string" where
  "trim s = rev (strip (map rev whitespace) (rev (strip whitespace s)))"

definition is_digit :: "char \<Rightarrow> bool" where
  "is_digit c = (48 \<le> (of_char c :: nat) \<and> (of_char c :: nat) \<le> 57)"

definition is_upper :: "char \<Rightarrow> bool" where
  "is_upper c = (65 \<le> (of_char c :: nat) \<and> (of_char c :: nat) \<le> 90)"

text \<open>
  \<^verbatim>\<open>String.prototype.toLowerCase\<close> applies the case mapping of the runtime's Unicode
  tables, which are no part of the repository: the functions that call it take the mapping
  as their first argument \<open>lc\<close>, and what is proved of them holds for every mapping.
  \<open>ascii_lower\<close> is the mapping on ASCII text, where only \<open>A\<close> to \<open>Z\<close> change; the
  examples, whose roles are ASCII, are run with it.
\<close>

definition ascii_lower :: "string \<Rightarrow> string" where
  "ascii_lower s = map (\<lambda>c. if is_upper c then char_of (of_char c + (32 :: nat)) else c) s"

text \<open>Decimal rendering of a counter, as a template literal prints it.\<close>

fun dec :: "nat \<Rightarrow> string" where
  "dec n = (if n < 10 then [char_of (48 + n)] else dec (n div 10) @ [char_of (48 + n mod 10)])"

declare dec.simps [simp del]

text \<open>\<^verbatim>\<open>String(n)\<close> for an integral number.\<close>

definition string_of_int :: "int \<Rightarrow> string" where
  "string_of_int i = (if i < 0 then CHR ''-'' # dec (nat (- i)) else dec (nat i))"

section \<open>Reference tokens (accessibility.ts, actions.ts)\<close>

text \<open>The reference map: \<^verbatim>\<open>Map<string, number>\<close>, token to backend DOM node id.\<close>

type_synonym RefMap = "string \<rightharpoonup> int"

text \<open>The regular expression \<^verbatim>\<open>/^e\d+$/\<close>.\<close>

fun matches_ref :: "string \<Rightarrow> bool" where
  "matches_ref [] = False"
| "matches_ref (c # ds) = (c = CHR ''e'' \<and> ds \<noteq> [] \<and> list_all is_digit ds)"

text \<open>
  \<^verbatim>\<open>parseRef\<close>: trim, give up on the empty string, drop one leading \<^verbatim>\<open>@\<close>, test the
  pattern. \<open>None\<close> is the source's \<^verbatim>\<open>null\<close>.
\<close>

definition strip_at :: "string \<Rightarrow> string" where
  "strip_at s = (case s of [] \<Rightarrow> [] | c # rest \<Rightarrow> if c = CHR ''@'' then rest else s)"

definition parseRef :: "string \<Rightarrow> string option" where
  "parseRef raw =
     (let trimmed = trim raw in
      if trimmed = [] then None
      else let normalized = strip_at trimmed in
           if matches_ref normalized then Some normalized else None)"

text \<open>
  Errors are \<^verbatim>\<open>Error\<close> objects, identified by their message. The two messages of
  \<^verbatim>\<open>resolveRef\<close>; the second one holds an em dash (U+2014, three bytes of UTF-8).
\<close>

type_synonym error = string

definition invalid_ref :: "string \<Rightarrow> error" where
  "invalid_ref ref = ''Invalid ref: '' @ dq @ ref @ dq"

definition ref_not_found :: "string \<Rightarrow> error" where
  "ref_not_found ref =
     ''Ref '' @ dq @ ref @ dq @ '' not found '' @ [CHR 0xE2, CHR 0x80, CHR 0x94]
       @ '' run snapshot() first''"

definition resolveRef :: "string \<Rightarrow> RefMap \<Rightarrow> error + int" where
  "resolveRef ref refs =
     (case parseRef ref of
        None \<Rightarrow> Inl (invalid_ref ref)
      | Some parsed \<Rightarrow>
          (case refs parsed of
             None \<Rightarrow> Inl (ref_not_found ref)
           | Some nodeId \<Rightarrow> Inr nodeId))"

section \<open>Accessibility snapshot (accessibility.ts)\<close>

subsection \<open>Types\<close>

text \<open>
  The property wrappers of a raw node are \<^verbatim>\<open>{ value?: unknown }\<close>. \<open>JOther\<close> stands for
  every payload that is neither a string, a number nor a boolean (\<^verbatim>\<open>undefined\<close> included);
  numbers are integral.
\<close>

datatype js_value = JString string | JNumber int | JBoolean bool | JOther

record RawAXNode =
  nodeId :: "string option"
  raw_role :: "js_value option"
  raw_name :: "js_value option"
  raw_value :: "js_value option"
  raw_description :: "js_value option"
  childIds :: "string list option"
  raw_backendDOMNodeId :: "int option"

record AriaSnapshotNode =
  ref :: string
  role :: string
  name :: string
  val :: "string option"
  description :: "string option"
  backendDOMNodeId :: "int option"
  depth :: nat

definition INTERACTIVE_ROLES :: "string list" where
  "INTERACTIVE_ROLES =
     [''button'', ''link'', ''textbox'', ''checkbox'', ''radio'', ''combobox'', ''listbox'',
      ''menuitem'', ''menuitemcheckbox'', ''menuitemradio'', ''option'', ''searchbox'',
      ''slider'', ''spinbutton'', ''switch'', ''tab'', ''treeitem'']"

definition CONTENT_ROLES :: "string list" where
  "CONTENT_ROLES =
     [''heading'', ''cell'', ''gridcell'', ''columnheader'', ''rowheader'', ''listitem'',
      ''article'', ''region'', ''main'', ''navigation'']"

definition STRUCTURAL_ROLES :: "string list" where
  "STRUCTURAL_ROLES =
     [''generic'', ''group'', ''list'', ''table'', ''row'', ''rowgroup'', ''grid'', ''treegrid'',
      ''menu'', ''menubar'', ''toolbar'', ''tablist'', ''tree'', ''directory'', ''document'',
      ''application'', ''presentation'', ''none'']"

subsection \<open>Flattening the raw tree\<close>

definition axValue :: "js_value option \<Rightarrow> string" where
  "axValue v =
     (case v of
        None \<Rightarrow> []
      | Some (JString s) \<Rightarrow> s
      | Some (JNumber n) \<Rightarrow> string_of_int n
      | Some (JBoolean b) \<Rightarrow> (if b then ''true'' else ''false'')
      | Some JOther \<Rightarrow> [])"

text \<open>\<^verbatim>\<open>n.childIds ?? []\<close>\<close>

definition children_of :: "RawAXNode \<Rightarrow> string list" where
  "children_of n = (case childIds n of None \<Rightarrow> [] | Some cs \<Rightarrow> cs)"

text \<open>A node id is usable when it is present and not the empty string (\<^verbatim>\<open>if (n.nodeId)\<close>).\<close>

definition has_id :: "RawAXNode \<Rightarrow> bool" where
  "has_id n = (case nodeId n of None \<Rightarrow> False | Some i \<Rightarrow> i \<noteq> [])"

text \<open>The index \<^verbatim>\<open>byId\<close>: a later node with the same id replaces an earlier one.\<close>

definition index_nodes :: "RawAXNode list \<Rightarrow> (string \<rightharpoonup> RawAXNode)" where
  "index_nodes nodes =
     foldl (\<lambda>m n. if has_id n then m(the (nodeId n) \<mapsto> n) else m) Map.empty nodes"

text \<open>The set \<^verbatim>\<open>referenced\<close>: every id in the child list of any node.\<close>

definition referenced :: "RawAXNode list \<Rightarrow> string set" where
  "referenced nodes = set (concat (map children_of nodes))"

text \<open>
  \<^verbatim>\<open>nodes.find((n) => n.nodeId && !referenced.has(n.nodeId)) ?? nodes[0]\<close>; \<open>None\<close> is
  \<^verbatim>\<open>undefined\<close> (the empty list).
\<close>

definition find_root :: "RawAXNode list \<Rightarrow> RawAXNode option" where
  "find_root nodes =
     (case List.find (\<lambda>n. has_id n \<and> the (nodeId n) \<notin> referenced nodes) nodes of
        Some r \<Rightarrow> Some r
      | None \<Rightarrow> (case nodes of [] \<Rightarrow> None | n # _ \<Rightarrow> Some n))"

text \<open>The entry pushed on \<^verbatim>\<open>out\<close> for raw node \<open>n\<close> met at \<open>depth\<close> when \<open>out\<close> holds \<open>k\<close> entries.\<close>

definition snapshot_node :: "RawAXNode \<Rightarrow> nat \<Rightarrow> nat \<Rightarrow> AriaSnapshotNode" where
  "snapshot_node n d k =
     \<lparr> ref = ''ax'' @ dec (k + 1),
       role = (if axValue (raw_role n) = [] then ''unknown'' else axValue (raw_role n)),
       name = axValue (raw_name n),
       val = (if axValue (raw_value n) = [] then None else Some (axValue (raw_value n))),
       description =
         (if axValue (raw_description n) = [] then None else Some (axValue (raw_description n))),
       backendDOMNodeId = raw_backendDOMNodeId n,
       depth = d \<rparr>"

text \<open>
  The inner \<^verbatim>\<open>for\<close> loop: \<open>i\<close> counts the children still to push, so the child looked at is
  \<open>children ! (i - 1)\<close>, from the last one down to the first. The stack is the JavaScript
  array: \<^verbatim>\<open>push\<close> appends, \<^verbatim>\<open>pop\<close> takes the last element.
\<close>

fun push_children :: "string list \<Rightarrow> nat \<Rightarrow> nat \<Rightarrow> (string \<times> nat) list \<Rightarrow> (string \<times> nat) list" where
  "push_children children 0 d stack = stack"
| "push_children children (Suc i) d stack =
     push_children children i d
       (if children ! i \<noteq> [] then stack @ [(children ! i, d + 1)] else stack)"

text \<open>
  The \<^verbatim>\<open>while\<close> loop. It is not structurally recursive, so it is defined as a partial
  function: a run that never leaves the loop is the value \<open>None\<close>.
\<close>

partial_function (option) dfs_loop ::
  "(string \<rightharpoonup> RawAXNode) \<Rightarrow> int \<Rightarrow> (string \<times> nat) list \<Rightarrow> AriaSnapshotNode list
     \<Rightarrow> AriaSnapshotNode list option" where
  "dfs_loop byId limit stack out =
     (if stack \<noteq> [] \<and> int (length out) < limit then
        (case byId (fst (last stack)) of
           None \<Rightarrow> dfs_loop byId limit (butlast stack) out
         | Some n \<Rightarrow>
             (let children = filter (\<lambda>c. byId c \<noteq> None) (children_of n) in
              dfs_loop byId limit
                (push_children children (length children) (snd (last stack)) (butlast stack))
                (out @ [snapshot_node n (snd (last stack)) (length out)])))
      else Some out)"

declare dfs_loop.simps [code]

definition formatAriaSnapshot :: "RawAXNode list \<Rightarrow> int \<Rightarrow> AriaSnapshotNode list option" where
  "formatAriaSnapshot nodes limit =
     (let byId = index_nodes nodes in
      case find_root nodes of
        None \<Rightarrow> Some []
      | Some r \<Rightarrow>
          if \<not> has_id r then Some []
          else dfs_loop byId limit [(the (nodeId r), 0)] [])"

text \<open>
  The traversal order the loop is compared with: the pre-order unfolding from id \<open>i\<close>, cut at
  \<open>k\<close> levels (on a cyclic list the unfolding has no end), every id looked up in the index and
  an id without entry contributing nothing; \<open>number_from\<close> turns visits into output entries,
  numbered by position.
\<close>

fun preorder :: "nat \<Rightarrow> (string \<rightharpoonup> RawAXNode) \<Rightarrow> string \<Rightarrow> nat \<Rightarrow> (RawAXNode \<times> nat) list" where
  "preorder 0 byId i d = []"
| "preorder (Suc k) byId i d =
     (case byId i of
        None \<Rightarrow> []
      | Some n \<Rightarrow> (n, d) # concat (map (\<lambda>c. preorder k byId c (d + 1)) (children_of n)))"

fun number_from :: "nat \<Rightarrow> (RawAXNode \<times> nat) list \<Rightarrow> AriaSnapshotNode list" where
  "number_from k [] = []"
| "number_from k ((n, d) # vs) = snapshot_node n d k # number_from (Suc k) vs"

definition visits :: "nat \<Rightarrow> (string \<rightharpoonup> RawAXNode) \<Rightarrow> (string \<times> nat) list \<Rightarrow> (RawAXNode \<times> nat) list" where
  "visits k byId stack = concat (map (\<lambda>(i, d). preorder k byId i d) (rev stack))"

text \<open>
  The node at position \<open>k\<close> is listed by another node: its id occurs among the children of
  a node at a different position.
\<close>

definition listed_by_other :: "RawAXNode list \<Rightarrow> nat \<Rightarrow> bool" where
  "listed_by_other nodes k =
     (\<exists>j \<in> set [0..<length nodes]. j \<noteq> k \<and> the (nodeId (nodes ! k)) \<in> set (children_of (nodes ! j)))"

text \<open>
  \<^verbatim>\<open>Math.max(1, Math.min(2000, Math.floor(opts?.limit ?? 500)))\<close> of \<^verbatim>\<open>snapshot\<close>, on
  rational numbers.
\<close>

definition snapshot_limit :: "rat option \<Rightarrow> int" where
  "snapshot_limit l = max 1 (min 2000 (floor (case l of None \<Rightarrow> 500 | Some x \<Rightarrow> x)))"

subsection \<open>Rendering\<close>

record Snapshot =
  snap_text :: string
  snap_refs :: RefMap

text \<open>The three locals of \<^verbatim>\<open>buildSnapshot\<close>.\<close>

record builder =
  b_refs :: RefMap
  b_lines :: "string list"
  refCounter :: nat

definition indent :: "nat \<Rightarrow> string" where
  "indent d = concat (replicate d ''  '')"

text \<open>The line of a node before a reference token is appended; \<open>r\<close> is the lower-cased role.\<close>

definition base_line :: "(string \<Rightarrow> string) \<Rightarrow> AriaSnapshotNode \<Rightarrow> string" where
  "base_line lc node =
     indent (depth node) @ ''- '' @ lc (role node)
       @ (if name node \<noteq> [] then '' '' @ dq @ name node @ dq else [])
       @ (case val node of
            None \<Rightarrow> []
          | Some v \<Rightarrow> if v \<noteq> [] then '': '' @ dq @ v @ dq else [])"

definition isInteractive :: "(string \<Rightarrow> string) \<Rightarrow> AriaSnapshotNode \<Rightarrow> bool" where
  "isInteractive lc node = (lc (role node) \<in> set INTERACTIVE_ROLES)"

definition isContent :: "(string \<Rightarrow> string) \<Rightarrow> AriaSnapshotNode \<Rightarrow> bool" where
  "isContent lc node = (lc (role node) \<in> set CONTENT_ROLES)"

definition isStructural :: "(string \<Rightarrow> string) \<Rightarrow> AriaSnapshotNode \<Rightarrow> bool" where
  "isStructural lc node = (lc (role node) \<in> set STRUCTURAL_ROLES)"

text \<open>The four \<^verbatim>\<open>continue\<close> tests, in the order of the source.\<close>

definition skipped :: "(string \<Rightarrow> string) \<Rightarrow> AriaSnapshotNode \<Rightarrow> bool" where
  "skipped lc node =
     (if isStructural lc node \<and> name node = [] then True
      else if lc (role node) = ''unknown'' \<and> name node = [] then True
      else if lc (role node) = ''none'' \<or> lc (role node) = ''presentation''
        then True
      else if lc (role node) = ''statictext''
          \<or> lc (role node) = ''InlineTextBox'' then True
      else False)"

definition shouldHaveRef :: "(string \<Rightarrow> string) \<Rightarrow> AriaSnapshotNode \<Rightarrow> bool" where
  "shouldHaveRef lc node = (isInteractive lc node \<or> (isContent lc node \<and> name node \<noteq> []))"

text \<open>One iteration of the \<^verbatim>\<open>for\<close> loop of \<^verbatim>\<open>buildSnapshot\<close>.\<close>

definition build_step :: "(string \<Rightarrow> string) \<Rightarrow> builder \<Rightarrow> AriaSnapshotNode \<Rightarrow> builder" where
  "build_step lc b node =
     (if skipped lc node then b
      else
        (case backendDOMNodeId node of
           Some h \<Rightarrow>
             if shouldHaveRef lc node then
               b \<lparr> b_refs := (b_refs b)(''e'' @ dec (refCounter b + 1) \<mapsto> h),
                   b_lines :=
                     b_lines b @ [base_line lc node @ '' [@'' @ ''e'' @ dec (refCounter b + 1) @ '']''],
                   refCounter := refCounter b + 1 \<rparr>
             else b \<lparr> b_lines := b_lines b @ [base_line lc node] \<rparr>
         | None \<Rightarrow> b \<lparr> b_lines := b_lines b @ [base_line lc node] \<rparr>))"

definition build :: "(string \<Rightarrow> string) \<Rightarrow> AriaSnapshotNode list \<Rightarrow> builder" where
  "build lc axNodes =
     foldl (build_step lc) \<lparr> b_refs = Map.empty, b_lines = [], refCounter = 0 \<rparr> axNodes"

text \<open>\<^verbatim>\<open>lines.join("\\n")\<close>\<close>

fun join_lines :: "string list \<Rightarrow> string" where
  "join_lines [] = []"
| "join_lines [l] = l"
| "join_lines (l # ls) = l @ [CHR 0x0A] @ join_lines ls"

definition buildSnapshot :: "(string \<Rightarrow> string) \<Rightarrow> AriaSnapshotNode list \<Rightarrow> Snapshot" where
  "buildSnapshot lc axNodes =
     \<lparr> snap_text =
         (if join_lines (b_lines (build lc axNodes)) = [] then ''(empty page)''
          else join_lines (b_lines (build lc axNodes))),
       snap_refs = b_refs (build lc axNodes) \<rparr>"

text \<open>
  What the rendering is checked against. A node is emitted when no \<^verbatim>\<open>continue\<close> drops it;
  an emitted node is due a token when it carries a DOM handle and is interactive, or is a
  content node with a name.
\<close>

definition emitted :: "(string \<Rightarrow> string) \<Rightarrow> AriaSnapshotNode list \<Rightarrow> AriaSnapshotNode list" where
  "emitted lc axNodes = filter (\<lambda>n. \<not> skipped lc n) axNodes"

definition due_token :: "(string \<Rightarrow> string) \<Rightarrow> AriaSnapshotNode \<Rightarrow> bool" where
  "due_token lc node =
     (backendDOMNodeId node \<noteq> None \<and> (isInteractive lc node \<or> (isContent lc node \<and> name node \<noteq> [])))"

text \<open>The number of the token of the \<open>i\<close>-th emitted node: one more than the tokens before it.\<close>

definition token_number :: "(string \<Rightarrow> string) \<Rightarrow> AriaSnapshotNode list \<Rightarrow> nat \<Rightarrow> nat" where
  "token_number lc ns i = Suc (length (filter (due_token lc) (take i ns)))"

section \<open>Protocol client (cdp-client.ts)\<close>

text \<open>
  \<^verbatim>\<open>createCdpClient\<close> closes over a socket, the counter \<^verbatim>\<open>nextId\<close> and two
  \<^verbatim>\<open>Map\<close>s. A \<^verbatim>\<open>Map\<close> is an association list in insertion order with distinct keys.
  Payloads (\<^verbatim>\<open>unknown\<close> in the source) are a type parameter \<open>'v\<close>. Command ids are
  integers: a response whose \<^verbatim>\<open>id\<close> is a number that is not integral matches no pending
  entry and behaves like an integer that was never allocated.
\<close>

definition js_set :: "'k \<Rightarrow> 'a \<Rightarrow> ('k \<times> 'a) list \<Rightarrow> ('k \<times> 'a) list" where
  "js_set k v m =
     (if k \<in> fst ` set m then map (\<lambda>(k', v'). if k' = k then (k', v) else (k', v')) m
      else m @ [(k, v)])"

definition js_delete :: "'k \<Rightarrow> ('k \<times> 'a) list \<Rightarrow> ('k \<times> 'a) list" where
  "js_delete k m = filter (\<lambda>(k', v'). k' \<noteq> k) m"

datatype ready_state = CONNECTING | OPEN | CLOSING | CLOSED

text \<open>
  A promise returned by \<^verbatim>\<open>send\<close> is a handle into the list \<open>promises\<close> of the state of
  every promise created so far. Settling a promise that is already settled changes nothing.
\<close>

datatype 'v promise = Unsettled | Resolved "'v option" | Rejected error

definition settle :: "nat \<Rightarrow> 'v promise \<Rightarrow> 'v promise list \<Rightarrow> 'v promise list" where
  "settle p outcome ps = (if p < length ps \<and> ps ! p = Unsettled then ps[p := outcome] else ps)"

text \<open>
  \<^verbatim>\<open>CdpMessage\<close>. \<open>msg_id\<close> is \<open>None\<close> when \<^verbatim>\<open>typeof msg.id\<close> is not \<^verbatim>\<open>"number"\<close>;
  \<open>msg_error\<close> is \<open>None\<close> without an \<^verbatim>\<open>error\<close> field, \<open>Some None\<close> for an error object
  without \<^verbatim>\<open>message\<close>.
\<close>

record 'v CdpMessage =
  msg_id :: "int option"
  msg_method :: "string option"
  msg_params :: "'v option"
  msg_sessionId :: "string option"
  msg_result :: "'v option"
  msg_error :: "string option option"

text \<open>The object \<^verbatim>\<open>send\<close> serialises; a field left out of it is \<open>None\<close>.\<close>

record 'v frame =
  frame_id :: int
  frame_method :: string
  frame_params :: "'v option"
  frame_sessionId :: "string option"

text \<open>
  Event handlers are identified by a number; a call made by \<^verbatim>\<open>dispatchEvent\<close> is logged in
  \<open>invoked\<close> (what a handler does, exceptions included, does not reach the client).
\<close>

record 'v client =
  readyState :: ready_state
  nextId :: int
  pending :: "(int \<times> nat) list"
  listeners :: "(string \<times> nat list) list"
  promises :: "'v promise list"
  transmitted :: "'v frame list"
  invoked :: "(nat \<times> 'v option \<times> string option) list"

text \<open>The state \<^verbatim>\<open>createCdpClient\<close> starts in, on a socket in state \<open>rs\<close>.\<close>

definition createCdpClient :: "ready_state \<Rightarrow> 'v client" where
  "createCdpClient rs =
     \<lparr> readyState = rs, nextId = 1, pending = [], listeners = [], promises = [],
       transmitted = [], invoked = [] \<rparr>"

definition not_open :: error where
  "not_open = ''CDP socket not open''"

definition socket_closed :: error where
  "socket_closed = ''CDP socket closed''"

text \<open>\<^verbatim>\<open>send\<close> returns the handle of the promise it created.\<close>

definition send :: "string \<Rightarrow> 'v option \<Rightarrow> string option \<Rightarrow> 'v client \<Rightarrow> nat \<times> 'v client" where
  "send method params sessionId c =
     (if readyState c \<noteq> OPEN then
        (length (promises c), c \<lparr> promises := promises c @ [Rejected not_open] \<rparr>)
      else
        (length (promises c),
         c \<lparr> nextId := nextId c + 1,
             transmitted := transmitted c @
               [\<lparr> frame_id = nextId c, frame_method = method, frame_params = params,
                  frame_sessionId = (if sessionId = Some [] then None else sessionId) \<rparr>],
             promises := promises c @ [Unsettled],
             pending := js_set (nextId c) (length (promises c)) (pending c) \<rparr>))"

definition dispatchEvent :: "string \<Rightarrow> 'v option \<Rightarrow> string option \<Rightarrow> 'v client \<Rightarrow> 'v client" where
  "dispatchEvent method params sessionId c =
     (case map_of (listeners c) method of
        None \<Rightarrow> c
      | Some handlers \<Rightarrow>
          c \<lparr> invoked := invoked c @ map (\<lambda>h. (h, params, sessionId)) handlers \<rparr>)"

text \<open>\<^verbatim>\<open>ws.close()\<close>: the socket leaves \<open>OPEN\<close> at once.\<close>

definition ws_close :: "ready_state \<Rightarrow> ready_state" where
  "ws_close rs = (case rs of CLOSED \<Rightarrow> CLOSED | _ \<Rightarrow> CLOSING)"

definition closeWithError :: "error \<Rightarrow> 'v client \<Rightarrow> 'v client" where
  "closeWithError err c =
     c \<lparr> promises := foldl (\<lambda>ps (i, p). settle p (Rejected err) ps) (promises c) (pending c),
         pending := [],
         readyState := ws_close (readyState c) \<rparr>"

text \<open>How a response settles its promise: \<^verbatim>\<open>if (msg.error?.message)\<close>.\<close>

definition response_outcome :: "'v CdpMessage \<Rightarrow> 'v promise" where
  "response_outcome msg =
     (case msg_error msg of
        Some (Some m) \<Rightarrow> if m \<noteq> [] then Rejected m else Resolved (msg_result msg)
      | _ \<Rightarrow> Resolved (msg_result msg))"

text \<open>
  The \<^verbatim>\<open>message\<close> handler; its argument is the parsed frame, \<open>None\<close> when
  \<^verbatim>\<open>JSON.parse\<close> throws.
\<close>

definition on_message :: "'v CdpMessage option \<Rightarrow> 'v client \<Rightarrow> 'v client" where
  "on_message data c =
     (case data of
        None \<Rightarrow> c
      | Some msg \<Rightarrow>
          (case msg_id msg of
             Some i \<Rightarrow>
               (case map_of (pending c) i of
                  Some p \<Rightarrow>
                    c \<lparr> pending := js_delete i (pending c),
                        promises := settle p (response_outcome msg) (promises c) \<rparr>
                | None \<Rightarrow> c)
           | None \<Rightarrow>
               (case msg_method msg of
                  None \<Rightarrow> c
                | Some m \<Rightarrow>
                    if m \<noteq> [] then dispatchEvent m (msg_params msg) (msg_sessionId msg) c
                    else c)))"

definition on :: "string \<Rightarrow> nat \<Rightarrow> 'v client \<Rightarrow> 'v client" where
  "on event handler c =
     (case map_of (listeners c) event of
        None \<Rightarrow> c \<lparr> listeners := listeners c @ [(event, [handler])] \<rparr>
      | Some hs \<Rightarrow>
          c \<lparr> listeners :=
                js_set event (if handler \<in> set hs then hs else hs @ [handler]) (listeners c) \<rparr>)"

definition off :: "string \<Rightarrow> nat \<Rightarrow> 'v client \<Rightarrow> 'v client" where
  "off event handler c =
     (case map_of (listeners c) event of
        None \<Rightarrow> c
      | Some hs \<Rightarrow> c \<lparr> listeners := js_set event (removeAll handler hs) (listeners c) \<rparr>)"

definition close :: "'v client \<Rightarrow> 'v client" where
  "close c = c \<lparr> pending := [], readyState := ws_close (readyState c) \<rparr>"

text \<open>
  Everything that can happen to a client: a call of one of its four methods, or one of the
  socket's events. The socket opens once, from \<open>CONNECTING\<close>; it reports \<open>CLOSED\<close> when
  its \<^verbatim>\<open>close\<close> event is delivered.
\<close>

datatype 'v event =
    Call_send string "'v option" "string option"
  | Call_on string nat
  | Call_off string nat
  | Call_close
  | Socket_open
  | Socket_message "'v CdpMessage option"
  | Socket_error error
  | Socket_close

fun step :: "'v client \<Rightarrow> 'v event \<Rightarrow> 'v client" where
  "step c (Call_send method params sessionId) = snd (send method params sessionId c)"
| "step c (Call_on e h) = on e h c"
| "step c (Call_off e h) = off e h c"
| "step c Call_close = close c"
| "step c Socket_open =
     c \<lparr> readyState := (if readyState c = CONNECTING then OPEN else readyState c) \<rparr>"
| "step c (Socket_message data) = on_message data c"
| "step c (Socket_error err) = closeWithError err c"
| "step c Socket_close = closeWithError socket_closed (c \<lparr> readyState := CLOSED \<rparr>)"

definition run :: "'v client \<Rightarrow> 'v event list \<Rightarrow> 'v client" where
  "run c evs = foldl step c evs"

text \<open>An event that tears the transport down.\<close>

fun teardown :: "'v event \<Rightarrow> bool" where
  "teardown Call_close = True"
| "teardown (Socket_error err) = True"
| "teardown Socket_close = True"
| "teardown _ = False"

text \<open>An event that leaves the command with id \<open>n\<close> waiting: no teardown, no response to \<open>n\<close>.\<close>

fun leaves_waiting :: "int \<Rightarrow> 'v event \<Rightarrow> bool" where
  "leaves_waiting n (Socket_message (Some msg)) = (msg_id msg \<noteq> Some n)"
| "leaves_waiting n ev = (\<not> teardown ev)"

section \<open>Asynchronous operations against the client interface\<close>

text \<open>
  The modules above the client see it through the interface \<^verbatim>\<open>CdpClient\<close>. An
  \<^verbatim>\<open>async\<close> function is a state transformer with three outcomes: it returns, it throws
  (its promise is rejected), or it hangs on a promise that is never settled. \<open>await\<close> runs an
  operation and hands its value to the rest of the function.
\<close>

datatype 'a outcome = Returns 'a | Throws error | Hangs

definition await ::
  "('s \<Rightarrow> 'a outcome \<times> 's) \<Rightarrow> ('a \<Rightarrow> 's \<Rightarrow> 'b outcome \<times> 's) \<Rightarrow> 's \<Rightarrow> 'b outcome \<times> 's" where
  "await m k s =
     (case m s of
        (Returns a, s') \<Rightarrow> k a s'
      | (Throws e, s') \<Rightarrow> (Throws e, s')
      | (Hangs, s') \<Rightarrow> (Hangs, s'))"

definition returns :: "'a \<Rightarrow> 's \<Rightarrow> 'a outcome \<times> 's" where
  "returns a s = (Returns a, s)"

definition throw :: "error \<Rightarrow> 's \<Rightarrow> 'a outcome \<times> 's" where
  "throw e s = (Throws e, s)"

text \<open>
  Command parameters, and the results the callers cast the replies to, with the fields they
  read. A number is rational, \<open>None\<close> being \<^verbatim>\<open>NaN\<close>. \<open>No_result\<close> is \<^verbatim>\<open>undefined\<close> or an
  object without any field the caller reads; reading a field of a result of another shape
  gives \<^verbatim>\<open>undefined\<close> (\<open>None\<close>).
\<close>

datatype param =
    P_string string
  | P_int int
  | P_bool bool
  | P_number "rat option"
  | P_strings "string list"

record command =
  cmd_method :: string
  cmd_params :: "(string \<times> param) list option"
  cmd_sessionId :: "string option"

datatype result =
    No_result
  | Target_result "string option"
  | Session_result "string option"
  | Navigate_result "string option"
  | History_result "int option" "int list option"
  | Quads_result "rat list list option"
  | Object_result "string option"
  | Eval_result "bool option"
  | AXTree_result "RawAXNode list option"

datatype reply = Reply result | Failure error | Silence

text \<open>
  The remote end is a script: the replies to the commands in the order they are sent
  (\<open>Silence\<close>, or no reply left, is a command whose promise never settles), and whether the
  load event waited for arrives. \<open>calls\<close> logs the calls of \<^verbatim>\<open>cdp.send\<close>.
\<close>

record cdp_world =
  replies :: "reply list"
  calls :: "command list"
  loadEvents :: "bool list"

definition cdp_send ::
  "string \<Rightarrow> (string \<times> param) list option \<Rightarrow> string option \<Rightarrow> cdp_world
     \<Rightarrow> result outcome \<times> cdp_world" where
  "cdp_send m ps sid w =
     (let w' = w \<lparr> calls := calls w @ [\<lparr> cmd_method = m, cmd_params = ps, cmd_sessionId = sid \<rparr>] \<rparr>
      in case replies w of
           [] \<Rightarrow> (Hangs, w')
         | Reply r # rs \<Rightarrow> (Returns r, w' \<lparr> replies := rs \<rparr>)
         | Failure e # rs \<Rightarrow> (Throws e, w' \<lparr> replies := rs \<rparr>)
         | Silence # rs \<Rightarrow> (Hangs, w' \<lparr> replies := rs \<rparr>))"

text \<open>Awaiting the promise a one-shot \<^verbatim>\<open>Page.loadEventFired\<close> listener resolves.\<close>

definition await_load :: "cdp_world \<Rightarrow> unit outcome \<times> cdp_world" where
  "await_load w =
     (case loadEvents w of
        [] \<Rightarrow> (Hangs, w)
      | fired # rest \<Rightarrow> (if fired then Returns () else Hangs, w \<lparr> loadEvents := rest \<rparr>))"

text \<open>A string is truthy when it is present and not empty.\<close>

definition truthy :: "string option \<Rightarrow> bool" where
  "truthy s = (case s of None \<Rightarrow> False | Some x \<Rightarrow> x \<noteq> [])"

text \<open>\<^verbatim>\<open>xs[i]\<close> on an array: \<^verbatim>\<open>undefined\<close> outside the array.\<close>

definition at_index :: "'a list \<Rightarrow> int \<Rightarrow> 'a option" where
  "at_index xs i = (if 0 \<le> i \<and> i < int (length xs) then Some (xs ! nat i) else None)"

fun targetId_of :: "result \<Rightarrow> string option" where
  "targetId_of (Target_result t) = t"
| "targetId_of _ = None"

fun sessionId_of :: "result \<Rightarrow> string option" where
  "sessionId_of (Session_result t) = t"
| "sessionId_of _ = None"

fun errorText_of :: "result \<Rightarrow> string option" where
  "errorText_of (Navigate_result t) = t"
| "errorText_of _ = None"

fun currentIndex_of :: "result \<Rightarrow> int option" where
  "currentIndex_of (History_result i es) = i"
| "currentIndex_of _ = None"

fun entries_of :: "result \<Rightarrow> int list option" where
  "entries_of (History_result i es) = es"
| "entries_of _ = None"

fun quads_of :: "result \<Rightarrow> rat list list option" where
  "quads_of (Quads_result q) = q"
| "quads_of _ = None"

fun objectId_of :: "result \<Rightarrow> string option" where
  "objectId_of (Object_result t) = t"
| "objectId_of _ = None"

fun checked_of :: "result \<Rightarrow> bool option" where
  "checked_of (Eval_result b) = b"
| "checked_of _ = None"

fun nodes_of :: "result \<Rightarrow> RawAXNode list option" where
  "nodes_of (AXTree_result ns) = ns"
| "nodes_of _ = None"

section \<open>Navigation (navigation.ts)\<close>

definition navigate :: "string \<Rightarrow> string option \<Rightarrow> cdp_world \<Rightarrow> unit outcome \<times> cdp_world" where
  "navigate url sessionId =
     await (cdp_send ''Page.enable'' None sessionId) (\<lambda>_.
     await (cdp_send ''Page.navigate'' (Some [(''url'', P_string url)]) sessionId) (\<lambda>result.
       if truthy (errorText_of result)
       then throw (''Navigation failed: '' @ the (errorText_of result))
       else
         await await_load (\<lambda>_.
         await (cdp_send ''Page.bringToFront'' None sessionId) (\<lambda>_.
         returns ()))))"

definition goBack :: "string option \<Rightarrow> cdp_world \<Rightarrow> unit outcome \<times> cdp_world" where
  "goBack sessionId =
     await (cdp_send ''Page.getNavigationHistory'' None sessionId) (\<lambda>history.
       let idx = (case currentIndex_of history of None \<Rightarrow> 0 | Some i \<Rightarrow> i);
           entries = (case entries_of history of None \<Rightarrow> [] | Some es \<Rightarrow> es)
       in if idx > 0 \<and> at_index entries (idx - 1) \<noteq> None then
            await (cdp_send ''Page.navigateToHistoryEntry''
                     (Some [(''entryId'', P_int (the (at_index entries (idx - 1))))]) sessionId)
              (\<lambda>_. returns ())
          else returns ())"

definition goForward :: "string option \<Rightarrow> cdp_world \<Rightarrow> unit outcome \<times> cdp_world" where
  "goForward sessionId =
     await (cdp_send ''Page.getNavigationHistory'' None sessionId) (\<lambda>history.
       let idx = (case currentIndex_of history of None \<Rightarrow> 0 | Some i \<Rightarrow> i);
           entries = (case entries_of history of None \<Rightarrow> [] | Some es \<Rightarrow> es)
       in if idx < int (length entries) - 1 \<and> at_index entries (idx + 1) \<noteq> None then
            await (cdp_send ''Page.navigateToHistoryEntry''
                     (Some [(''entryId'', P_int (the (at_index entries (idx + 1))))]) sessionId)
              (\<lambda>_. returns ())
          else returns ())"

definition reload :: "string option \<Rightarrow> cdp_world \<Rightarrow> unit outcome \<times> cdp_world" where
  "reload sessionId =
     await (cdp_send ''Page.enable'' None sessionId) (\<lambda>_.
     await (cdp_send ''Page.reload'' None sessionId) (\<lambda>_.
     await await_load (\<lambda>_.
     returns ())))"

section \<open>Actions (actions.ts)\<close>

text \<open>The mean of four array elements; \<^verbatim>\<open>NaN\<close> (\<open>None\<close>) when one of them is missing.\<close>

definition mean4 :: "rat list \<Rightarrow> int \<Rightarrow> int \<Rightarrow> int \<Rightarrow> int \<Rightarrow> rat option" where
  "mean4 q a b c d =
     (case (at_index q a, at_index q b, at_index q c, at_index q d) of
        (Some x1, Some x2, Some x3, Some x4) \<Rightarrow> Some ((x1 + x2 + x3 + x4) / 4)
      | _ \<Rightarrow> None)"

definition getClickPoint ::
  "int \<Rightarrow> string option \<Rightarrow> cdp_world \<Rightarrow> (rat option \<times> rat option) outcome \<times> cdp_world" where
  "getClickPoint backendNodeId sessionId =
     await (cdp_send ''DOM.scrollIntoViewIfNeeded''
              (Some [(''backendNodeId'', P_int backendNodeId)]) sessionId) (\<lambda>_.
     await (cdp_send ''DOM.getContentQuads''
              (Some [(''backendNodeId'', P_int backendNodeId)]) sessionId) (\<lambda>result.
       case quads_of result of
         None \<Rightarrow> throw ''Could not get element position (no quads returned)''
       | Some quads \<Rightarrow>
           (case quads of
              [] \<Rightarrow> throw ''Could not get element position (no quads returned)''
            | q # _ \<Rightarrow>
                if q = [] then throw ''Could not get element position (no quads returned)''
                else returns (mean4 q 0 2 4 6, mean4 q 1 3 5 7))))"

definition mouse_event :: "string \<Rightarrow> rat option \<Rightarrow> rat option \<Rightarrow> (string \<times> param) list" where
  "mouse_event t x y =
     [(''type'', P_string t), (''x'', P_number x), (''y'', P_number y),
      (''button'', P_string ''left''), (''clickCount'', P_int 1)]"

definition clickRef ::
  "string \<Rightarrow> RefMap \<Rightarrow> string option \<Rightarrow> cdp_world \<Rightarrow> unit outcome \<times> cdp_world" where
  "clickRef r refs sessionId =
     (case resolveRef r refs of
        Inl e \<Rightarrow> throw e
      | Inr backendNodeId \<Rightarrow>
          await (getClickPoint backendNodeId sessionId) (\<lambda>(x, y).
          await (cdp_send ''Input.dispatchMouseEvent''
                   (Some (mouse_event ''mousePressed'' x y)) sessionId) (\<lambda>_.
          await (cdp_send ''Input.dispatchMouseEvent''
                   (Some (mouse_event ''mouseReleased'' x y)) sessionId) (\<lambda>_.
          returns ()))))"

text \<open>
  \<^verbatim>\<open>DOM.resolveNode\<close> and the test of its \<^verbatim>\<open>objectId\<close>, shared by the three functions
  below (the source repeats it in each).
\<close>

definition resolveNode ::
  "int \<Rightarrow> string option \<Rightarrow> cdp_world \<Rightarrow> string outcome \<times> cdp_world" where
  "resolveNode backendNodeId sessionId =
     await (cdp_send ''DOM.resolveNode''
              (Some [(''backendNodeId'', P_int backendNodeId)]) sessionId) (\<lambda>resolved.
       if truthy (objectId_of resolved) then returns (the (objectId_of resolved))
       else throw ''Could not resolve node to JS object'')"

text \<open>The three scripts handed to \<^verbatim>\<open>Runtime.callFunctionOn\<close> are named, not spelled out.\<close>

definition clear_script :: string where
  "clear_script = ''clear the value and dispatch an input event''"

definition select_script :: string where
  "select_script = ''select the options whose value is listed and dispatch a change event''"

definition checked_script :: string where
  "checked_script = ''return this.checked''"

definition typeIntoRef ::
  "string \<Rightarrow> string \<Rightarrow> RefMap \<Rightarrow> string option \<Rightarrow> cdp_world \<Rightarrow> unit outcome \<times> cdp_world" where
  "typeIntoRef r txt refs sessionId =
     (case resolveRef r refs of
        Inl e \<Rightarrow> throw e
      | Inr backendNodeId \<Rightarrow>
          await (resolveNode backendNodeId sessionId) (\<lambda>objectId.
          await (cdp_send ''DOM.focus''
                   (Some [(''backendNodeId'', P_int backendNodeId)]) sessionId) (\<lambda>_.
          await (cdp_send ''Runtime.callFunctionOn''
                   (Some [(''objectId'', P_string objectId),
                          (''functionDeclaration'', P_string clear_script)]) sessionId) (\<lambda>_.
          await (cdp_send ''Input.insertText'' (Some [(''text'', P_string txt)]) sessionId) (\<lambda>_.
          returns ())))))"

definition selectOption ::
  "string \<Rightarrow> string list \<Rightarrow> RefMap \<Rightarrow> string option \<Rightarrow> cdp_world \<Rightarrow> unit outcome \<times> cdp_world" where
  "selectOption r vals refs sessionId =
     (case resolveRef r refs of
        Inl e \<Rightarrow> throw e
      | Inr backendNodeId \<Rightarrow>
          await (resolveNode backendNodeId sessionId) (\<lambda>objectId.
          await (cdp_send ''Runtime.callFunctionOn''
                   (Some [(''objectId'', P_string objectId),
                          (''functionDeclaration'', P_string select_script),
                          (''arguments'', P_strings vals)]) sessionId) (\<lambda>_.
          returns ())))"

definition checkRef ::
  "string \<Rightarrow> bool \<Rightarrow> RefMap \<Rightarrow> string option \<Rightarrow> cdp_world \<Rightarrow> unit outcome \<times> cdp_world" where
  "checkRef r checked refs sessionId =
     (case resolveRef r refs of
        Inl e \<Rightarrow> throw e
      | Inr backendNodeId \<Rightarrow>
          await (resolveNode backendNodeId sessionId) (\<lambda>objectId.
          await (cdp_send ''Runtime.callFunctionOn''
                   (Some [(''objectId'', P_string objectId),
                          (''functionDeclaration'', P_string checked_script),
                          (''returnByValue'', P_bool True)]) sessionId) (\<lambda>evalResult.
            let currentChecked = (case checked_of evalResult of None \<Rightarrow> False | Some b \<Rightarrow> b)
            in if currentChecked \<noteq> checked then clickRef r refs sessionId else returns ())))"

section \<open>Tab manager (tab-manager.ts)\<close>

record TabInfo =
  tabId :: string
  sessionId :: string
  url :: string
  title :: string

text \<open>The state \<^verbatim>\<open>createTabManager\<close> closes over: the client it was given and its table.\<close>

record manager =
  cdp :: cdp_world
  tabs :: "(string \<times> TabInfo) list"

definition on_cdp :: "(cdp_world \<Rightarrow> 'a outcome \<times> cdp_world) \<Rightarrow> manager \<Rightarrow> 'a outcome \<times> manager" where
  "on_cdp m t = (case m (cdp t) of (r, w) \<Rightarrow> (r, t \<lparr> cdp := w \<rparr>))"

definition onTargetDestroyed :: "string option \<Rightarrow> manager \<Rightarrow> manager" where
  "onTargetDestroyed targetId t =
     (if truthy targetId then t \<lparr> tabs := js_delete (the targetId) (tabs t) \<rparr> else t)"

text \<open>The three optional fields of \<^verbatim>\<open>targetInfo\<close>; \<open>None\<close> for the whole is a missing \<^verbatim>\<open>targetInfo\<close>.\<close>

definition onTargetInfoChanged ::
  "(string option \<times> string option \<times> string option) option \<Rightarrow> manager \<Rightarrow> manager" where
  "onTargetInfoChanged targetInfo t =
     (case targetInfo of
        None \<Rightarrow> t
      | Some (targetId, new_url, new_title) \<Rightarrow>
          if \<not> truthy targetId then t
          else
            (case map_of (tabs t) (the targetId) of
               None \<Rightarrow> t
             | Some tab \<Rightarrow>
                 t \<lparr> tabs := js_set (the targetId)
                       (tab \<lparr> url := (case new_url of None \<Rightarrow> url tab | Some u \<Rightarrow> u),
                              title := (case new_title of None \<Rightarrow> title tab | Some u \<Rightarrow> u) \<rparr>)
                       (tabs t) \<rparr>))"

definition attach :: "string \<Rightarrow> manager \<Rightarrow> string outcome \<times> manager" where
  "attach targetId =
     await (on_cdp (cdp_send ''Target.attachToTarget''
              (Some [(''targetId'', P_string targetId), (''flatten'', P_bool True)]) None)) (\<lambda>result.
       if \<not> truthy (sessionId_of result) then throw ''Target.attachToTarget returned no sessionId''
       else (\<lambda>t.
         (Returns (the (sessionId_of result)),
          t \<lparr> tabs := js_set targetId
                \<lparr> tabId = targetId, sessionId = the (sessionId_of result), url = [], title = [] \<rparr>
                (tabs t) \<rparr>)))"

definition createTab :: "string option \<Rightarrow> manager \<Rightarrow> string outcome \<times> manager" where
  "createTab u =
     await (on_cdp (cdp_send ''Target.createTarget''
              (Some [(''url'', P_string (case u of None \<Rightarrow> ''about:blank'' | Some x \<Rightarrow> x))]) None))
       (\<lambda>result.
       if \<not> truthy (targetId_of result) then throw ''Target.createTarget returned no targetId''
       else
         await (attach (the (targetId_of result))) (\<lambda>_ t.
           (Returns (the (targetId_of result)),
            (case map_of (tabs t) (the (targetId_of result)) of
               None \<Rightarrow> t
             | Some tab \<Rightarrow>
                 t \<lparr> tabs := js_set (the (targetId_of result))
                       (tab \<lparr> url := (case u of None \<Rightarrow> ''about:blank'' | Some x \<Rightarrow> x) \<rparr>)
                       (tabs t) \<rparr>))))"

definition closeTab :: "string \<Rightarrow> manager \<Rightarrow> unit outcome \<times> manager" where
  "closeTab tab =
     await (on_cdp (cdp_send ''Target.closeTarget'' (Some [(''targetId'', P_string tab)]) None))
       (\<lambda>_ t. (Returns (), t \<lparr> tabs := js_delete tab (tabs t) \<rparr>))"

definition getTab :: "string \<Rightarrow> manager \<Rightarrow> TabInfo option" where
  "getTab tab t = map_of (tabs t) tab"

definition listTabs :: "manager \<Rightarrow> TabInfo list" where
  "listTabs t = map snd (tabs t)"

section \<open>Snapshot over the client (accessibility.ts)\<close>

definition snapshot ::
  "(string \<Rightarrow> string) \<Rightarrow> string option \<Rightarrow> rat option \<Rightarrow> cdp_world
     \<Rightarrow> Snapshot outcome \<times> cdp_world" where
  "snapshot lc sid limit_opt =
     await (cdp_send ''Accessibility.enable'' None sid) (\<lambda>_.
     await (cdp_send ''Accessibility.getFullAXTree'' None sid) (\<lambda>res.
       let rawNodes = (case nodes_of res of None \<Rightarrow> [] | Some ns \<Rightarrow> ns)
       in case formatAriaSnapshot rawNodes (snapshot_limit limit_opt) of
            None \<Rightarrow> (\<lambda>w. (Hangs, w))
          | Some axNodes \<Rightarrow> returns (buildSnapshot lc axNodes)))"

section \<open>Waiting for network idle (navigation.ts)\<close>

text \<open>
  Time is a count of milliseconds. A timer is its deadline: \<^verbatim>\<open>setTimeout(f, d)\<close> called at
  time \<open>t\<close> arms a timer that fires at \<open>t + timer_delay d\<close> unless it is cleared first, and
  a timer that is due fires before a network event of the same instant is delivered. The
  delay of a timer is the one Node.js gives it: a request below 1 or above 2147483647
  milliseconds is taken as 1. The closure of the promise holds \<open>inflight\<close> and \<open>timer\<close>;
  \<open>idle_timers\<close> and \<open>timeout\<close> are the timers armed in the runtime, \<open>listening\<close> tells
  whether the three listeners are registered, and \<open>resolved\<close> is the time at which
  \<^verbatim>\<open>resolve\<close> was first called.
\<close>

definition timer_delay :: "nat \<Rightarrow> nat" where
  "timer_delay d = (if 1 \<le> d \<and> d \<le> 2147483647 then d else 1)"

datatype net_event = RequestWillBeSent | LoadingFinished | LoadingFailed

record idle_wait =
  inflight :: int
  timer :: "nat option"
  idle_timers :: "nat list"
  timeout :: "nat option"
  listening :: bool
  resolved :: "nat option"

text \<open>\<^verbatim>\<open>if (timer) clearTimeout(timer)\<close>: the variable keeps its value.\<close>

definition clear_timer :: "idle_wait \<Rightarrow> idle_wait" where
  "clear_timer s =
     (case timer s of None \<Rightarrow> s | Some d \<Rightarrow> s \<lparr> idle_timers := remove1 d (idle_timers s) \<rparr>)"

definition checkIdle :: "nat \<Rightarrow> nat \<Rightarrow> idle_wait \<Rightarrow> idle_wait" where
  "checkIdle now idleMs s =
     (let s1 = clear_timer s in
      if inflight s1 \<le> 0
      then s1 \<lparr> timer := Some (now + timer_delay idleMs),
                idle_timers := idle_timers s1 @ [now + timer_delay idleMs] \<rparr>
      else s1)"

definition onRequest :: "idle_wait \<Rightarrow> idle_wait" where
  "onRequest s =
     (let s1 = s \<lparr> inflight := inflight s + 1 \<rparr> in
      case timer s1 of None \<Rightarrow> s1 | Some d \<Rightarrow> (clear_timer s1) \<lparr> timer := None \<rparr>)"

definition onFinish :: "nat \<Rightarrow> nat \<Rightarrow> idle_wait \<Rightarrow> idle_wait" where
  "onFinish now idleMs s = checkIdle now idleMs (s \<lparr> inflight := max 0 (inflight s - 1) \<rparr>)"

definition cleanup :: "idle_wait \<Rightarrow> idle_wait" where
  "cleanup s = (clear_timer (s \<lparr> timeout := None \<rparr>)) \<lparr> listening := False \<rparr>"

text \<open>Both timer callbacks are \<^verbatim>\<open>cleanup(); resolve();\<close>. The timer that fires is no longer armed.\<close>

definition fire :: "nat \<Rightarrow> idle_wait \<Rightarrow> idle_wait" where
  "fire d s =
     (let s1 = (if timeout s = Some d then s \<lparr> timeout := None \<rparr>
                else s \<lparr> idle_timers := remove1 d (idle_timers s) \<rparr>);
          s2 = cleanup s1
      in s2 \<lparr> resolved := (case resolved s2 of None \<Rightarrow> Some d | Some r \<Rightarrow> Some r) \<rparr>)"

text \<open>The body of the executor, run at time \<open>t0\<close>.\<close>

definition start_wait :: "nat \<Rightarrow> nat \<Rightarrow> nat \<Rightarrow> idle_wait" where
  "start_wait t0 idleMs timeoutMs =
     checkIdle t0 idleMs
       \<lparr> inflight = 0, timer = None, idle_timers = [],
         timeout = Some (t0 + timer_delay timeoutMs), listening = True, resolved = None \<rparr>"

text \<open>The deadline of the armed timer that fires first.\<close>

definition due :: "idle_wait \<Rightarrow> nat option" where
  "due s =
     (case timeout s of
        None \<Rightarrow> (if idle_timers s = [] then None else Some (Min (set (idle_timers s))))
      | Some d \<Rightarrow> Some (Min (set (d # idle_timers s))))"

definition deliver :: "nat \<Rightarrow> nat \<Rightarrow> net_event \<Rightarrow> idle_wait \<Rightarrow> idle_wait" where
  "deliver idleMs t ev s =
     (if \<not> listening s then s
      else case ev of
             RequestWillBeSent \<Rightarrow> onRequest s
           | LoadingFinished \<Rightarrow> onFinish t idleMs s
           | LoadingFailed \<Rightarrow> onFinish t idleMs s)"

text \<open>
  The wait under a sequence of timed network events. When a timer is due before the next
  event it fires, and the run is over: its callback removed the listeners and cleared the
  timers, so nothing that comes later reaches the promise. \<open>feed\<close> stops after the last
  event; \<open>run_wait\<close> then lets the next timer fire.
\<close>

fun feed :: "nat \<Rightarrow> idle_wait \<Rightarrow> (nat \<times> net_event) list \<Rightarrow> idle_wait" where
  "feed idleMs s [] = s"
| "feed idleMs s ((t, ev) # rest) =
     (case due s of
        None \<Rightarrow> feed idleMs (deliver idleMs t ev s) rest
      | Some d \<Rightarrow> if d \<le> t then fire d s else feed idleMs (deliver idleMs t ev s) rest)"

definition run_wait :: "nat \<Rightarrow> idle_wait \<Rightarrow> (nat \<times> net_event) list \<Rightarrow> idle_wait" where
  "run_wait idleMs s evs =
     (let s1 = feed idleMs s evs in case due s1 of None \<Rightarrow> s1 | Some d \<Rightarrow> fire d s1)"

text \<open>
  \<^verbatim>\<open>waitForNetworkIdle\<close>. The promise is created at time \<open>t0\<close>, once \<^verbatim>\<open>Network.enable\<close> has
  returned, and meets the events \<open>evs\<close>; the value returned is the time at which the promise
  resolves.
\<close>

definition waitForNetworkIdle ::
  "nat option \<Rightarrow> nat option \<Rightarrow> string option \<Rightarrow> nat \<Rightarrow> (nat \<times> net_event) list \<Rightarrow> cdp_world
     \<Rightarrow> nat outcome \<times> cdp_world" where
  "waitForNetworkIdle idle_opt timeout_opt sid t0 evs =
     (let idleMs = (case idle_opt of None \<Rightarrow> 500 | Some x \<Rightarrow> x);
          timeoutMs = (case timeout_opt of None \<Rightarrow> 30000 | Some x \<Rightarrow> x)
      in await (cdp_send ''Network.enable'' None sid) (\<lambda>_ w.
           case resolved (run_wait idleMs (start_wait t0 idleMs timeoutMs) evs) of
             None \<Rightarrow> (Hangs, w)
           | Some r \<Rightarrow> (Returns r, w)))"

section \<open>The agent (index.ts)\<close>

record agent =
  mgr :: manager
  currentSessionId :: "string option"
  currentTabId :: "string option"
  refs :: RefMap

definition on_client :: "(cdp_world \<Rightarrow> 'a outcome \<times> cdp_world) \<Rightarrow> agent \<Rightarrow> 'a outcome \<times> agent" where
  "on_client m a = (case on_cdp m (mgr a) of (r, t) \<Rightarrow> (r, a \<lparr> mgr := t \<rparr>))"

definition on_tabs :: "(manager \<Rightarrow> 'a outcome \<times> manager) \<Rightarrow> agent \<Rightarrow> 'a outcome \<times> agent" where
  "on_tabs m a = (case m (mgr a) of (r, t) \<Rightarrow> (r, a \<lparr> mgr := t \<rparr>))"

text \<open>\<^verbatim>\<open>this.refs.clear()\<close>\<close>

definition clear_refs :: "agent \<Rightarrow> unit outcome \<times> agent" where
  "clear_refs a = (Returns (), a \<lparr> refs := Map.empty \<rparr>)"

definition agent_navigate :: "string \<Rightarrow> agent \<Rightarrow> unit outcome \<times> agent" where
  "agent_navigate u a = await (on_client (navigate u (currentSessionId a))) (\<lambda>_. clear_refs) a"

definition agent_snapshot :: "(string \<Rightarrow> string) \<Rightarrow> agent \<Rightarrow> string outcome \<times> agent" where
  "agent_snapshot lc a =
     await (on_client (snapshot lc (currentSessionId a) None))
       (\<lambda>res a'. (Returns (snap_text res), a' \<lparr> refs := snap_refs res \<rparr>)) a"

definition agent_click :: "string \<Rightarrow> agent \<Rightarrow> unit outcome \<times> agent" where
  "agent_click r a = on_client (clickRef r (refs a) (currentSessionId a)) a"

definition agent_type :: "string \<Rightarrow> string \<Rightarrow> agent \<Rightarrow> unit outcome \<times> agent" where
  "agent_type r txt a = on_client (typeIntoRef r txt (refs a) (currentSessionId a)) a"

definition agent_select :: "string \<Rightarrow> string list \<Rightarrow> agent \<Rightarrow> unit outcome \<times> agent" where
  "agent_select r vals a = on_client (selectOption r vals (refs a) (currentSessionId a)) a"

definition agent_check :: "string \<Rightarrow> bool \<Rightarrow> agent \<Rightarrow> unit outcome \<times> agent" where
  "agent_check r checked a = on_client (checkRef r checked (refs a) (currentSessionId a)) a"

definition newTab :: "string option \<Rightarrow> agent \<Rightarrow> string outcome \<times> agent" where
  "newTab u =
     await (on_tabs (createTab u)) (\<lambda>tab a.
       case getTab tab (mgr a) of
         None \<Rightarrow> (Returns tab, a)
       | Some info \<Rightarrow>
           (Returns tab,
            a \<lparr> currentTabId := Some tab, currentSessionId := Some (sessionId info),
                refs := Map.empty \<rparr>))"

definition switchTab :: "string \<Rightarrow> agent \<Rightarrow> unit outcome \<times> agent" where
  "switchTab tab a =
     (case getTab tab (mgr a) of
        None \<Rightarrow> throw (''Tab '' @ dq @ tab @ dq @ '' not found'') a
      | Some info \<Rightarrow>
          (Returns (),
           a \<lparr> currentTabId := Some tab, currentSessionId := Some (sessionId info),
               refs := Map.empty \<rparr>))"

definition agent_closeTab :: "string option \<Rightarrow> agent \<Rightarrow> unit outcome \<times> agent" where
  "agent_closeTab tab_opt a =
     (let target = (case tab_opt of None \<Rightarrow> currentTabId a | Some t \<Rightarrow> Some t) in
      if \<not> truthy target then throw ''No tab to close'' a
      else
        await (on_tabs (closeTab (the target))) (\<lambda>_ a'.
          if target = currentTabId a'
          then (Returns (),
                a' \<lparr> currentTabId := None, currentSessionId := None, refs := Map.empty \<rparr>)
          else (Returns (), a')) a)"

definition agent_back :: "agent \<Rightarrow> unit outcome \<times> agent" where
  "agent_back a = await (on_client (goBack (currentSessionId a))) (\<lambda>_. clear_refs) a"

definition agent_forward :: "agent \<Rightarrow> unit outcome \<times> agent" where
  "agent_forward a = await (on_client (goForward (currentSessionId a))) (\<lambda>_. clear_refs) a"

definition agent_reload :: "agent \<Rightarrow> unit outcome \<times> agent" where
  "agent_reload a = await (on_client (reload (currentSessionId a))) (\<lambda>_. clear_refs) a"

section \<open>Example inputs\<close>

definition world0 :: cdp_world where
  "world0 = \<lparr> replies = [], calls = [], loadEvents = [] \<rparr>"

text \<open>An agent on tab \<open>T1\<close> whose last snapshot produced the single token \<open>e1\<close>.\<close>

definition agent0 :: agent where
  "agent0 =
     \<lparr> mgr = \<lparr> cdp = world0, tabs = [] \<rparr>, currentSessionId = Some ''S1'',
       currentTabId = Some ''T1'', refs = [''e1'' \<mapsto> 7] \<rparr>"

text \<open>
  A reference string with white space that is not ASCII around it: \<open>e9\<close> after a no-break
  space (U+00A0) and before a line separator (U+2028).
\<close>

definition padded :: string where
  "padded = [CHR 0xC2, CHR 0xA0] @ ''e9'' @ [CHR 0xE2, CHR 0x80, CHR 0xA8]"

text \<open>
  Raw nodes: \<open>tree0\<close> is the tree with root \<open>a\<close>, children \<open>b\<close> and \<open>c\<close>, and \<open>d\<close> below
  \<open>b\<close>, the root not listed first; in \<open>selfref\<close> node \<open>a\<close> lists itself and \<open>b\<close>; \<open>cyclic\<close>
  is one node that is its own child.
\<close>

definition ax :: "string \<Rightarrow> string \<Rightarrow> string list \<Rightarrow> RawAXNode" where
  "ax i r cs =
     \<lparr> nodeId = Some i, raw_role = Some (JString r), raw_name = None, raw_value = None,
       raw_description = None, childIds = Some cs, raw_backendDOMNodeId = None \<rparr>"

definition tree0 :: "RawAXNode list" where
  "tree0 = [ax ''b'' ''group'' [''d''], ax ''a'' ''main'' [''b'', ''c''], ax ''c'' ''button'' [],
            ax ''d'' ''link'' []]"

definition selfref :: "RawAXNode list" where
  "selfref = [ax ''b'' ''link'' [], ax ''a'' ''main'' [''a'', ''b'']]"

definition cyclic :: "RawAXNode list" where
  "cyclic = [ax ''a'' ''main'' [''a'']]"

text \<open>The reference token number \<open>k\<close>, and the value a decimal string denotes.\<close>

definition token :: "nat \<Rightarrow> string" where
  "token k = ''e'' @ dec k"

definition undec :: "string \<Rightarrow> nat" where
  "undec s = foldl (\<lambda>a c. 10 * a + (of_char c - 48)) 0 s"

text \<open>The line expected for the \<open>i\<close>-th emitted node.\<close>

definition line_of :: "(string \<Rightarrow> string) \<Rightarrow> AriaSnapshotNode list \<Rightarrow> nat \<Rightarrow> string" where
  "line_of lc em i =
     base_line lc (em ! i) @
       (if due_token lc (em ! i) then '' [@'' @ token (token_number lc em i) @ '']'' else [])"

text \<open>
  Snapshot nodes: \<open>page0\<close> holds a named content node, an unnamed and a named structural
  node, a button whose role is capitalised, a link without DOM handle, and an unnamed and a
  named heading.
\<close>

definition sn :: "string \<Rightarrow> string \<Rightarrow> int option \<Rightarrow> nat \<Rightarrow> AriaSnapshotNode" where
  "sn r n h d =
     \<lparr> ref = [], role = r, name = n, val = None, description = None, backendDOMNodeId = h,
       depth = d \<rparr>"

definition page0 :: "AriaSnapshotNode list" where
  "page0 =
     [sn ''main'' ''Shop'' (Some 10) 0, sn ''generic'' [] (Some 11) 1,
      sn ''list'' ''Items'' (Some 12) 1, sn ''Button'' ''Submit'' (Some 13) 2,
      sn ''link'' ''Home'' None 2, sn ''heading'' [] (Some 14) 1,
      sn ''heading'' ''News'' (Some 15) 1]"

text \<open>
  The commands of the tab manager and of history navigation, the defaults
  \<^verbatim>\<open>history?.currentIndex ?? 0\<close> and \<^verbatim>\<open>history?.entries ?? []\<close>, and example states: a
  manager tracking one tab whose close command is rejected (\<open>manager0\<close>) or answered
  (\<open>manager1\<close>), a remote with a history of three entries, and agents whose navigation
  fails or succeeds.
\<close>

definition close_cmd :: "string \<Rightarrow> command" where
  "close_cmd tab =
     \<lparr> cmd_method = ''Target.closeTarget'', cmd_params = Some [(''targetId'', P_string tab)],
       cmd_sessionId = None \<rparr>"

definition history_cmd :: "string option \<Rightarrow> command" where
  "history_cmd sid =
     \<lparr> cmd_method = ''Page.getNavigationHistory'', cmd_params = None, cmd_sessionId = sid \<rparr>"

definition entry_cmd :: "int \<Rightarrow> string option \<Rightarrow> command" where
  "entry_cmd e sid =
     \<lparr> cmd_method = ''Page.navigateToHistoryEntry'', cmd_params = Some [(''entryId'', P_int e)],
       cmd_sessionId = sid \<rparr>"

definition history_index :: "result \<Rightarrow> int" where
  "history_index h = (case currentIndex_of h of None \<Rightarrow> 0 | Some i \<Rightarrow> i)"

definition history_entries :: "result \<Rightarrow> int list" where
  "history_entries h = (case entries_of h of None \<Rightarrow> [] | Some es \<Rightarrow> es)"

definition manager0 :: manager where
  "manager0 =
     \<lparr> cdp = \<lparr> replies = [Failure ''No target with given id found''], calls = [], loadEvents = [] \<rparr>,
       tabs = [(''T1'', \<lparr> tabId = ''T1'', sessionId = ''S1'', url = ''https://a.example'', title = ''A'' \<rparr>)] \<rparr>"

definition manager1 :: manager where
  "manager1 = manager0 \<lparr> cdp := (cdp manager0) \<lparr> replies := [Reply No_result] \<rparr> \<rparr>"

definition history_world :: "int \<Rightarrow> cdp_world" where
  "history_world i =
     \<lparr> replies = [Reply (History_result (Some i) (Some [10, 20, 30])), Reply No_result],
       calls = [], loadEvents = [] \<rparr>"

definition failing_agent :: agent where
  "failing_agent =
     agent0 \<lparr> mgr := (mgr agent0) \<lparr> cdp :=
       \<lparr> replies = [Reply No_result, Reply (Navigate_result (Some ''net::ERR_NAME_NOT_RESOLVED''))],
         calls = [], loadEvents = [] \<rparr> \<rparr> \<rparr>"

definition loading_agent :: agent where
  "loading_agent =
     agent0 \<lparr> mgr := (mgr agent0) \<lparr> cdp :=
       \<lparr> replies = [Reply No_result, Reply (Navigate_result None), Reply No_result],
         calls = [], loadEvents = [True] \<rparr> \<rparr> \<rparr>"

text \<open>
  What holds of the client after every sequence of events: the pending map has distinct ids
  and distinct promises, every pending id was allocated, and every pending promise exists
  and is unsettled.
\<close>

definition client_inv :: "'v client \<Rightarrow> bool" where
  "client_inv c =
     (distinct (map fst (pending c)) \<and> distinct (map snd (pending c)) \<and>
      (\<forall>(i, p) \<in> set (pending c).
         i < nextId c \<and> p < length (promises c) \<and> promises c ! p = Unsettled))"

text \<open>The socket has left \<open>OPEN\<close> for good.\<close>

definition closed_or_closing :: "ready_state \<Rightarrow> bool" where
  "closed_or_closing rs = (rs = CLOSING \<or> rs = CLOSED)"

text \<open>The command with id \<open>n\<close>, whose promise is \<open>p\<close>, is pending.\<close>

definition waiting :: "int \<Rightarrow> nat \<Rightarrow> 'v client \<Rightarrow> bool" where
  "waiting n p c = (client_inv c \<and> map_of (pending c) n = Some p \<and> n < nextId c)"

text \<open>
  Every promise that is still unsettled belongs to a command of the pending map: no command
  has been dropped from the map without being settled.
\<close>

definition tracked :: "'v client \<Rightarrow> bool" where
  "tracked c =
     (\<forall>p < length (promises c). promises c ! p = Unsettled \<longrightarrow> p \<in> snd ` set (pending c))"

text \<open>
  Example messages and clients, payloads being numbers: \<open>client1\<close> is open with one command
  pending; \<open>client2\<close> has sent two more, and has seen the third and the first answered, in
  that order, and an unparsable frame; \<open>client3\<close> is open with one listener and one command
  pending.
\<close>

definition response :: "int \<Rightarrow> nat \<Rightarrow> nat CdpMessage" where
  "response i r =
     \<lparr> msg_id = Some i, msg_method = None, msg_params = None, msg_sessionId = None,
       msg_result = Some r, msg_error = None \<rparr>"

definition error_response :: "int \<Rightarrow> string option \<Rightarrow> nat CdpMessage" where
  "error_response i m =
     \<lparr> msg_id = Some i, msg_method = None, msg_params = None, msg_sessionId = None,
       msg_result = None, msg_error = Some m \<rparr>"

definition client1 :: "nat client" where
  "client1 = run (createCdpClient CONNECTING) [Socket_open, Call_send ''Page.enable'' None None]"

definition others :: "nat event list" where
  "others =
     [Call_send ''DOM.enable'' None None, Socket_message (Some (response 3 30)),
      Socket_message None, Socket_message (Some (response 1 10))]"

definition client2 :: "nat client" where
  "client2 = run (snd (send ''Page.navigate'' None None client1)) others"

definition client3 :: "nat client" where
  "client3 =
     run (createCdpClient CONNECTING)
       [Socket_open, Call_on ''Page.loadEventFired'' 7, Call_send ''Page.enable'' None None]"

(*DEFS-END*)

section \<open>The flattening loop\<close>

lemma push_children_eq:
  "i \<le> length cs \<Longrightarrow> push_children cs i d stack = stack @ map (\<lambda>c. (c, d + 1)) (filter (\<lambda>c. c \<noteq> []) (rev (take i cs)))"
proof (induction i arbitrary: stack)
  case 0 then show ?case by simp
next
  case (Suc i)
  then have "take (Suc i) cs = take i cs @ [cs ! i]" by (simp add: take_Suc_conv_app_nth)
  with Suc show ?case by simp
qed

lemma take_concat_cong:
  "(\<And>x. x \<in> set xs \<Longrightarrow> take m (f x) = take m (g x)) \<Longrightarrow> j \<le> m \<Longrightarrow>
   take j (concat (map f xs)) = take j (concat (map g xs))"
proof (induction xs arbitrary: j)
  case Nil then show ?case by simp
next
  case (Cons x xs)
  have tx: "take m (f x) = take m (g x)" using Cons.prems(1) by simp
  have tj: "take j (f x) = take j (g x)"
    using tx Cons.prems(2) by (metis min.absorb1 take_take)
  show ?case
  proof (cases "length (f x) < j")
    case True
    then have "length (f x) < m" using Cons.prems(2) by simp
    then have "f x = g x" using tx
      by (metis  length_take min.absorb1 min_less_iff_conj nat_less_le take_all_iff linorder_not_less)
    moreover have "take (j - length (f x)) (concat (map f xs)) = take (j - length (f x)) (concat (map g xs))"
      using Cons.IH[of "j - length (f x)"] Cons.prems by simp
    ultimately show ?thesis by simp
  next
    case False
    then have a: "j \<le> length (f x)" by simp
    then have "j \<le> length (g x)" using tj
      by (metis length_take min.absorb2 min.cobounded1)
    with a tj show ?thesis by simp
  qed
qed

lemma preorder_fuel:
  "m \<le> k \<Longrightarrow> take m (preorder k byId i d) = take m (preorder m byId i d)"
proof (induction m arbitrary: k i d)
  case 0 then show ?case by simp
next
  case (Suc m)
  then obtain k' where k: "k = Suc k'" and mk: "m \<le> k'" by (cases k) auto
  show ?case
  proof (cases "byId i")
    case None then show ?thesis by (simp add: k)
  next
    case (Some n)
    have "take m (concat (map (\<lambda>c. preorder k' byId c (d + 1)) (children_of n)))
        = take m (concat (map (\<lambda>c. preorder m byId c (d + 1)) (children_of n)))"
      by (rule take_concat_cong [where m = m]) (simp_all add: Suc.IH [OF mk])
    then show ?thesis by (simp add: k Some)
  qed
qed

lemma preorder_unknown: "byId i = None \<Longrightarrow> preorder k byId i d = []"
  by (cases k) simp_all

lemma concat_map_filter_nil:
  "(\<And>x. x \<in> set xs \<Longrightarrow> \<not> P x \<Longrightarrow> f x = []) \<Longrightarrow>
   concat (map f (filter P xs)) = concat (map f xs)"
  by (induction xs) auto

lemma take_append_cong:
  "take r B = take r B' \<Longrightarrow> take r (A @ B) = take r (A @ B')"
proof -
  assume h: "take r B = take r B'"
  have "take (r - length A) B = take (r - length A) (take r B)" by (simp add: min_def)
  also have "\<dots> = take (r - length A) (take r B')" by (simp only: h)
  also have "\<dots> = take (r - length A) B'" by (simp add: min_def)
  finally show ?thesis by simp
qed

lemma dfs_loop_preorder:
  assumes e: "byId [] = None"
  shows "dfs_loop byId limit stack out =
     Some (out @ number_from (length out)
        (take (nat (limit - int (length out))) (visits (nat (limit - int (length out))) byId stack)))"
proof (induction "nat (limit - int (length out))" arbitrary: stack out)
  case 0
  then have "\<not> int (length out) < limit" by simp
  then show ?case using 0 by (subst dfs_loop.simps) simp
next
  case (Suc r)
  then have lt: "int (length out) < limit" by linarith
  have r: "nat (limit - int (length out)) = Suc r" using Suc(2) by simp
  show ?case unfolding r
  proof (induction stack rule: rev_induct)
    case Nil
    show ?case by (subst dfs_loop.simps) (simp add: visits_def)
  next
    case (snoc top st)
    obtain i d where top: "top = (i, d)" by (cases top)
    show ?case
    proof (cases "byId i")
      case None
      have "dfs_loop byId limit (st @ [top]) out = dfs_loop byId limit st out"
        by (subst dfs_loop.simps) (simp add: top None lt)
      moreover have "visits (Suc r) byId (st @ [top]) = visits (Suc r) byId st"
        by (simp add: visits_def top None)
      ultimately show ?thesis using snoc by simp
    next
      case (Some n)
      define cs where "cs = filter (\<lambda>c. byId c \<noteq> None) (children_of n)"
      define out' where "out' = out @ [snapshot_node n d (length out)]"
      define st' where "st' = push_children cs (length cs) d st"
      have r': "r = nat (limit - int (length out'))" using r by (simp add: out'_def)
      have step: "dfs_loop byId limit (st @ [top]) out = dfs_loop byId limit st' out'"
        by (subst dfs_loop.simps) (simp add: top Some lt cs_def out'_def st'_def Let_def)
      have ne: "filter (\<lambda>c. c \<noteq> []) cs = cs"
      proof (rule filter_True, rule ballI)
        fix c assume "c \<in> set cs"
        then have "byId c \<noteq> None" by (simp add: cs_def)
        with e show "c \<noteq> []" by auto
      qed
      have st'_eq: "rev st' = map (\<lambda>c. (c, d + 1)) cs @ rev st"
        by (simp add: st'_def push_children_eq rev_map rev_filter ne)
      have v': "visits r byId st' =
          concat (map (\<lambda>c. preorder r byId c (d + 1)) (children_of n)) @ visits r byId st"
      proof -
        have "concat (map (\<lambda>c. preorder r byId c (d + 1)) cs) =
              concat (map (\<lambda>c. preorder r byId c (d + 1)) (children_of n))"
          unfolding cs_def by (rule concat_map_filter_nil) (simp add: preorder_unknown)
        then show ?thesis
          unfolding visits_def st'_eq by (simp add: comp_def)
      qed
      have tk: "take r (visits r byId st) = take r (visits (Suc r) byId st)"
        unfolding visits_def
        by (rule take_concat_cong [where m = r]) (auto simp: preorder_fuel [of r "Suc r", symmetric])
      have "dfs_loop byId limit st' out' =
          Some (out' @ number_from (length out') (take r (visits r byId st')))"
        using Suc(1) [OF r'] r' by simp
      also have "take r (visits r byId st') =
          take r (concat (map (\<lambda>c. preorder r byId c (d + 1)) (children_of n)) @ visits (Suc r) byId st)"
        unfolding v' by (rule take_append_cong) (rule tk)
      also have "out' @ number_from (length out') \<dots> =
          out @ number_from (length out) (take (Suc r) (visits (Suc r) byId (st @ [top])))"
        by (simp add: out'_def visits_def top Some)
      finally show ?thesis using step by simp
    qed
  qed
qed

lemma index_nodes_foldl:
  "foldl (\<lambda>m n. if has_id n then m(the (nodeId n) \<mapsto> n) else m) m0 nodes i =
     (if i = [] then m0 i
      else case List.find (\<lambda>n. nodeId n = Some i) (rev nodes) of None \<Rightarrow> m0 i | Some n \<Rightarrow> Some n)"
proof (induction nodes rule: rev_induct)
  case Nil then show ?case by simp
next
  case (snoc x xs)
  then show ?case by (auto simp: has_id_def split: option.splits)
qed

lemma index_nodes_eq:
  "index_nodes nodes i =
     (if i = [] then None else List.find (\<lambda>n. nodeId n = Some i) (rev nodes))"
  unfolding index_nodes_def index_nodes_foldl by (simp split: option.splits)

lemma length_number_from: "length (number_from k vs) = length vs"
  by (induction k vs rule: number_from.induct) simp_all

lemma formatAriaSnapshot_eq:
  "formatAriaSnapshot nodes limit =
     Some (case find_root nodes of
             None \<Rightarrow> []
           | Some r \<Rightarrow>
               if has_id r
               then number_from 0
                      (take (nat limit) (preorder (nat limit) (index_nodes nodes) (the (nodeId r)) 0))
               else [])"
proof -
  have e: "index_nodes nodes [] = None" by (simp add: index_nodes_eq)
  show ?thesis
    by (simp add: formatAriaSnapshot_def Let_def
        dfs_loop_preorder [where byId = "index_nodes nodes", OF e] visits_def
        split: option.splits)
qed

lemma find_root_None: "find_root nodes = None \<longleftrightarrow> nodes = []"
  by (auto simp: find_root_def find_None_iff split: option.splits list.splits)

lemma find_root_first:
  assumes "find_root nodes = Some r"
  shows "if \<exists>n \<in> set nodes. has_id n \<and> the (nodeId n) \<notin> referenced nodes
         then \<exists>k < length nodes. r = nodes ! k \<and> has_id r \<and> the (nodeId r) \<notin> referenced nodes
                \<and> (\<forall>j < k. \<not> (has_id (nodes ! j) \<and> the (nodeId (nodes ! j)) \<notin> referenced nodes))
         else r = hd nodes"
proof (cases "List.find (\<lambda>n. has_id n \<and> the (nodeId n) \<notin> referenced nodes) nodes")
  case None
  then have ne: "\<not> (\<exists>n \<in> set nodes. has_id n \<and> the (nodeId n) \<notin> referenced nodes)"
    by (simp add: find_None_iff)
  have "r = hd nodes"
    using assms None by (simp add: find_root_def split: list.splits)
  then show ?thesis unfolding if_not_P [OF ne] .
next
  case (Some x)
  then have rx: "r = x" using assms by (simp add: find_root_def)
  from Some obtain k where k: "k < length nodes" "x = nodes ! k"
    "has_id x \<and> the (nodeId x) \<notin> referenced nodes"
    "\<forall>j < k. \<not> (has_id (nodes ! j) \<and> the (nodeId (nodes ! j)) \<notin> referenced nodes)"
    unfolding find_Some_iff by blast
  have ex: "\<exists>n \<in> set nodes. has_id n \<and> the (nodeId n) \<notin> referenced nodes"
    using k(1-3) nth_mem by blast
  have "\<exists>k < length nodes. r = nodes ! k \<and> has_id r \<and> the (nodeId r) \<notin> referenced nodes
          \<and> (\<forall>j < k. \<not> (has_id (nodes ! j) \<and> the (nodeId (nodes ! j)) \<notin> referenced nodes))"
    using k rx by blast
  then show ?thesis unfolding if_P [OF ex] .
qed

lemma referenced_listed_by_other:
  assumes ns: "\<forall>n \<in> set nodes. has_id n \<longrightarrow> the (nodeId n) \<notin> set (children_of n)"
    and k: "k < length nodes" and h: "has_id (nodes ! k)"
  shows "the (nodeId (nodes ! k)) \<in> referenced nodes \<longleftrightarrow> listed_by_other nodes k"
proof
  assume "the (nodeId (nodes ! k)) \<in> referenced nodes"
  then obtain n where n: "n \<in> set nodes" "the (nodeId (nodes ! k)) \<in> set (children_of n)"
    by (auto simp: referenced_def)
  then obtain j where j: "j < length nodes" "nodes ! j = n" by (auto simp: in_set_conv_nth)
  have "the (nodeId (nodes ! k)) \<notin> set (children_of (nodes ! k))"
    using ns k h by simp
  with n(2) j(2) have "j \<noteq> k" by auto
  with j n(2) show "listed_by_other nodes k" by (auto simp: listed_by_other_def)
next
  assume "listed_by_other nodes k"
  then obtain j where "j < length nodes" "the (nodeId (nodes ! k)) \<in> set (children_of (nodes ! j))"
    by (auto simp: listed_by_other_def)
  then show "the (nodeId (nodes ! k)) \<in> referenced nodes"
    by (auto simp: referenced_def intro!: bexI [of _ "nodes ! j"])
qed

lemma tree0_no_self:
  "\<forall>n \<in> set tree0. has_id n \<longrightarrow> the (nodeId n) \<notin> set (children_of n)"
  "1 < length tree0" "has_id (tree0 ! 1)" "the (nodeId (tree0 ! 1)) \<notin> referenced tree0"
  "has_id (tree0 ! 0)" "the (nodeId (tree0 ! 0)) \<in> referenced tree0"
  by (simp_all add: tree0_def ax_def has_id_def referenced_def children_of_def)

lemma find_root_tree0: "find_root tree0 = Some (ax ''a'' ''main'' [''b'', ''c''])"
  by (simp add: find_root_def tree0_def ax_def has_id_def referenced_def children_of_def)

lemma tree0_unreferenced:
  "\<exists>n \<in> set tree0. has_id n \<and> the (nodeId n) \<notin> referenced tree0"
  by (simp add: tree0_def ax_def has_id_def referenced_def children_of_def)

lemma tree0_preorder:
  "take (nat 10) (preorder (nat 10) (index_nodes tree0) ''a'' 0) =
     [(ax ''a'' ''main'' [''b'', ''c''], 0), (ax ''b'' ''group'' [''d''], 1),
      (ax ''d'' ''link'' [], 2), (ax ''c'' ''button'' [], 1)]"
  by code_simp

text \<open>
  C4. For every raw node list and every limit, \<open>formatAriaSnapshot\<close> returns, and what it
  returns is this. The root is a node whose id no node lists among its children, the first
  such node in list order, and the first node of the list when there is no such node; with
  an empty list, or a root without id, the output is empty. Otherwise the output is the
  first \<open>limit\<close> entries (none for a limit below one) of the pre-order depth-first visit that
  starts at the root's id at depth 0: every id is looked up in the index, an id without
  entry contributes nothing, and the children of a node are visited in their declared order,
  one level deeper. The entries are numbered \<open>ax1\<close>, \<open>ax2\<close>, ... in output order.
  The set \<open>referenced\<close> holds the ids of all child lists; on a list where no node lists its
  own id, an id is in it exactly when another node lists it.
\<close>

theorem flatten_preorder_from_root:
  "formatAriaSnapshot nodes limit =
     Some (case find_root nodes of
             None \<Rightarrow> []
           | Some r \<Rightarrow>
               if has_id r
               then number_from 0
                      (take (nat limit) (preorder (nat limit) (index_nodes nodes) (the (nodeId r)) 0))
               else [])
   \<and> (find_root nodes = None \<longleftrightarrow> nodes = [])
   \<and> (\<forall>r. find_root nodes = Some r \<longrightarrow>
         (if \<exists>n \<in> set nodes. has_id n \<and> the (nodeId n) \<notin> referenced nodes
          then \<exists>k < length nodes. r = nodes ! k \<and> has_id r \<and> the (nodeId r) \<notin> referenced nodes
                 \<and> (\<forall>j < k. \<not> (has_id (nodes ! j) \<and> the (nodeId (nodes ! j)) \<notin> referenced nodes))
          else r = hd nodes))
   \<and> (\<forall>i. i \<in> referenced nodes \<longleftrightarrow> (\<exists>n \<in> set nodes. i \<in> set (children_of n)))
   \<and> (\<forall>i. index_nodes nodes i =
          (if i = [] then None else List.find (\<lambda>n. nodeId n = Some i) (rev nodes)))
   \<and> ((\<forall>n \<in> set nodes. has_id n \<longrightarrow> the (nodeId n) \<notin> set (children_of n)) \<longrightarrow>
        (\<forall>k < length nodes. has_id (nodes ! k) \<longrightarrow>
           (the (nodeId (nodes ! k)) \<in> referenced nodes \<longleftrightarrow> listed_by_other nodes k)))"
proof (intro conjI allI impI)
  show "formatAriaSnapshot nodes limit =
     Some (case find_root nodes of
             None \<Rightarrow> []
           | Some r \<Rightarrow>
               if has_id r
               then number_from 0
                      (take (nat limit) (preorder (nat limit) (index_nodes nodes) (the (nodeId r)) 0))
               else [])"
    by (rule formatAriaSnapshot_eq)
  show "find_root nodes = None \<longleftrightarrow> nodes = []" by (rule find_root_None)
  show "i \<in> referenced nodes \<longleftrightarrow> (\<exists>n \<in> set nodes. i \<in> set (children_of n))" for i
    by (auto simp: referenced_def)
  show "index_nodes nodes i =
          (if i = [] then None else List.find (\<lambda>n. nodeId n = Some i) (rev nodes))" for i
    by (rule index_nodes_eq)
next
  fix r assume "find_root nodes = Some r"
  then show "if \<exists>n \<in> set nodes. has_id n \<and> the (nodeId n) \<notin> referenced nodes
         then \<exists>k < length nodes. r = nodes ! k \<and> has_id r \<and> the (nodeId r) \<notin> referenced nodes
                \<and> (\<forall>j < k. \<not> (has_id (nodes ! j) \<and> the (nodeId (nodes ! j)) \<notin> referenced nodes))
         else r = hd nodes"
    by (rule find_root_first)
next
  fix k
  assume ns: "\<forall>n \<in> set nodes. has_id n \<longrightarrow> the (nodeId n) \<notin> set (children_of n)"
    and k: "k < length nodes" and h: "has_id (nodes ! k)"
  show "the (nodeId (nodes ! k)) \<in> referenced nodes \<longleftrightarrow> listed_by_other nodes k"
    by (rule referenced_listed_by_other [OF ns k h])
qed

text \<open>
  The theorem on \<open>tree0\<close>: the root is \<open>a\<close>, the second node of the list, which no other
  node lists, found because the first node \<open>b\<close> is listed by another node, \<open>a\<close>; the visit
  is \<open>a\<close>, \<open>b\<close>, \<open>d\<close>, \<open>c\<close>.
\<close>

theorem flatten_preorder_from_root_witness:
  "find_root tree0 = Some (ax ''a'' ''main'' [''b'', ''c'']) \<and>
   (\<exists>k < length tree0. ax ''a'' ''main'' [''b'', ''c''] = tree0 ! k \<and>
      (\<forall>j < k. \<not> (has_id (tree0 ! j) \<and> the (nodeId (tree0 ! j)) \<notin> referenced tree0))) \<and>
   \<not> listed_by_other tree0 1 \<and> listed_by_other tree0 0 \<and>
   formatAriaSnapshot tree0 10 =
     Some (number_from 0
       [(ax ''a'' ''main'' [''b'', ''c''], 0), (ax ''b'' ''group'' [''d''], 1),
        (ax ''d'' ''link'' [], 2), (ax ''c'' ''button'' [], 1)])"
proof -
  note t = flatten_preorder_from_root [of tree0 10]
  have a: "has_id (ax ''a'' ''main'' [''b'', ''c''])" "nodeId (ax ''a'' ''main'' [''b'', ''c'']) = Some ''a''"
    by (simp_all add: ax_def has_id_def)
  from t have "formatAriaSnapshot tree0 10 =
     Some (number_from 0 (take (nat 10) (preorder (nat 10) (index_nodes tree0) ''a'' 0)))"
    by (simp add: find_root_tree0 a)
  moreover from t find_root_tree0 tree0_unreferenced
  have "\<exists>k < length tree0. ax ''a'' ''main'' [''b'', ''c''] = tree0 ! k \<and>
      (\<forall>j < k. \<not> (has_id (tree0 ! j) \<and> the (nodeId (tree0 ! j)) \<notin> referenced tree0))"
    by (metis (no_types, lifting))
  moreover from t tree0_no_self(1)
  have "\<forall>k < length tree0. has_id (tree0 ! k) \<longrightarrow>
      (the (nodeId (tree0 ! k)) \<in> referenced tree0 \<longleftrightarrow> listed_by_other tree0 k)"
    by blast
  with tree0_no_self have "\<not> listed_by_other tree0 1" "listed_by_other tree0 0"
    by (metis zero_less_one less_trans)+
  ultimately show ?thesis by (simp only: tree0_preorder find_root_tree0) simp
qed

text \<open>
  On a list where a node lists its own id the two differ: in \<open>selfref\<close> node \<open>a\<close> is listed
  by itself only, every id is in \<open>referenced\<close>, and the traversal starts at the first node
  of the list.
\<close>

lemma self_listed_fallback:
  "formatAriaSnapshot selfref 10 = Some [snapshot_node (ax ''b'' ''link'' []) 0 0] \<and>
   the (nodeId (selfref ! 1)) \<in> referenced selfref \<and> \<not> listed_by_other selfref 1"
  by code_simp

text \<open>
  C10. For every raw node list and every limit, \<open>formatAriaSnapshot\<close> returns (the loop
  is a partial function, and its value is never \<open>None\<close>), whatever cycles, missing ids or
  unreferenced nodes the list holds, and the list returned has at most \<open>limit\<close> entries
  (none when the limit is negative). The limit \<open>snapshot\<close> passes lies between 1 and 2000.
\<close>

theorem flatten_total_bounded:
  "(\<exists>out. formatAriaSnapshot nodes limit = Some out \<and> int (length out) \<le> max 0 limit)
   \<and> 1 \<le> snapshot_limit l \<and> snapshot_limit l \<le> 2000"
proof -
  have "\<exists>out. formatAriaSnapshot nodes limit = Some out \<and> int (length out) \<le> max 0 limit"
    unfolding formatAriaSnapshot_eq
    by (auto simp: length_number_from split: option.splits)
  then show ?thesis by (simp add: snapshot_limit_def)
qed

text \<open>The theorem on a node that is its own child, with limit 3.\<close>

theorem flatten_total_bounded_witness:
  "\<exists>out. formatAriaSnapshot cyclic 3 = Some out \<and> length out \<le> 3"
  using flatten_total_bounded [of cyclic 3] by auto

section \<open>Reference errors of the actions\<close>

lemma resolveRef_cases:
  "resolveRef r m =
     (if \<not> matches_ref (strip_at (trim r)) then Inl (invalid_ref r)
      else case m (strip_at (trim r)) of None \<Rightarrow> Inl (ref_not_found r) | Some h \<Rightarrow> Inr h)"
  by (auto simp: resolveRef_def parseRef_def Let_def strip_at_def)

lemma on_client_throw: "on_client (throw e) a = (Throws e, a)"
  by (simp add: on_client_def on_cdp_def throw_def)

lemma errors_differ: "invalid_ref r \<noteq> ref_not_found r'"
  by (simp add: invalid_ref_def ref_not_found_def)

lemma trim_x1: "trim ''x1'' = ''x1''"
  by code_simp

lemma trim_e7: "trim '' @e7 '' = ''@e7''"
  by code_simp

lemma trim_e1: "trim '' e1'' = ''e1''"
  by code_simp

lemma trim_padded: "trim padded = ''e9''"
  by code_simp

text \<open>
  C7, as amended. For each of the four actions of the agent (click, type, select, check):
  when the reference string, after trimming surrounding whitespace and stripping one
  leading \<open>@\<close> if there is one, does not match \<open>e<digits>\<close>, the action throws the
  invalid-reference error and leaves the agent as it was (no command is sent); when it does
  match but the token is not a key of the agent's current reference map, the action throws
  the not-found error, again with the agent unchanged. The map consulted is the current one
  only, so what an earlier map held plays no part. The two errors are never equal.
\<close>

theorem action_reference_errors:
  "(\<not> matches_ref (strip_at (trim r)) \<longrightarrow>
      agent_click r a = (Throws (invalid_ref r), a) \<and>
      agent_type r txt a = (Throws (invalid_ref r), a) \<and>
      agent_select r vals a = (Throws (invalid_ref r), a) \<and>
      agent_check r b a = (Throws (invalid_ref r), a)) \<and>
   (matches_ref (strip_at (trim r)) \<and> refs a (strip_at (trim r)) = None \<longrightarrow>
      agent_click r a = (Throws (ref_not_found r), a) \<and>
      agent_type r txt a = (Throws (ref_not_found r), a) \<and>
      agent_select r vals a = (Throws (ref_not_found r), a) \<and>
      agent_check r b a = (Throws (ref_not_found r), a)) \<and>
   invalid_ref r \<noteq> ref_not_found r'"
  by (simp add: agent_click_def agent_type_def agent_select_def agent_check_def
      clickRef_def typeIntoRef_def selectOption_def checkRef_def resolveRef_cases
      on_client_throw errors_differ)

text \<open>
  The theorem at three inputs: \<open>x1\<close> is malformed; \<open>@e7\<close> between spaces, and \<open>padded\<close>
  (\<open>e9\<close> between a no-break space and a line separator), are well formed and unknown to
  the map of \<open>agent0\<close>, which holds \<open>e1\<close> only.
\<close>

theorem action_reference_errors_witness:
  "agent_click ''x1'' agent0 = (Throws (invalid_ref ''x1''), agent0) \<and>
   agent_check '' @e7 '' True agent0 = (Throws (ref_not_found '' @e7 ''), agent0) \<and>
   agent_click padded agent0 = (Throws (ref_not_found padded), agent0)"
  using action_reference_errors [of "''x1''" agent0]
    action_reference_errors [of "'' @e7 ''" agent0 _ _ True]
    action_reference_errors [of padded agent0]
  by (simp add: trim_x1 trim_e7 trim_padded strip_at_def is_digit_def agent0_def)

text \<open>
  C7 as stated fails: the string \<open>e1\<close> with a space in front does not match \<open>e<digits>\<close>
  after stripping an optional leading \<open>@\<close>, yet it resolves to the handle of \<open>e1\<close>, and
  the click it starts does not end in the invalid-reference error.
\<close>

theorem untrimmed_reference_counterexample:
  "\<not> matches_ref (strip_at '' e1'') \<and>
   resolveRef '' e1'' (refs agent0) = Inr 7 \<and>
   fst (agent_click '' e1'' agent0) \<noteq> Throws (invalid_ref '' e1'')"
  by (simp add: agent_click_def clickRef_def resolveRef_cases trim_e1 strip_at_def is_digit_def
      agent0_def world0_def on_client_def on_cdp_def getClickPoint_def await_def cdp_send_def)

section \<open>Rendering and reference tokens\<close>

lemma undec_dec: "undec (dec n) = n"
proof (induction n rule: dec.induct)
  case (1 n)
  show ?case
  proof (cases "n < 10")
    case True
    then show ?thesis by (subst dec.simps) (simp add: undec_def)
  next
    case False
    have m: "n mod 10 < 10" by simp
    have "undec (dec n) = 10 * undec (dec (n div 10)) + n mod 10"
      using False m by (subst dec.simps) (simp add: undec_def)
    with 1 False show ?thesis by simp
  qed
qed

lemma dec_inj: "dec m = dec n \<Longrightarrow> m = n"
  by (metis undec_dec)

lemma token_inj: "token m = token n \<Longrightarrow> m = n"
  by (simp add: token_def dec_inj)

lemma emitted_snoc:
  "emitted lc (ns @ [x]) = emitted lc ns @ (if skipped lc x then [] else [x])"
  by (simp add: emitted_def)

lemma build_snoc: "build lc (ns @ [x]) = build_step lc (build lc ns) x"
  by (simp add: build_def)

lemma token_number_append:
  "i \<le> length em \<Longrightarrow> token_number lc (em @ ys) i = token_number lc em i"
  by (simp add: token_number_def)

lemma token_number_le:
  "i < length em \<Longrightarrow> due_token lc (em ! i) \<Longrightarrow> token_number lc em i \<le> length (filter (due_token lc) em)"
proof -
  assume i: "i < length em" and d: "due_token lc (em ! i)"
  have "em = take i em @ em ! i # drop (Suc i) em" using i by (simp add: id_take_nth_drop)
  then have "length (filter (due_token lc) em) =
      length (filter (due_token lc) (take i em)) + length (filter (due_token lc) (em ! i # drop (Suc i) em))"
    by (metis filter_append length_append)
  with d show ?thesis by (simp add: token_number_def)
qed

lemma line_of_append: "i < length em \<Longrightarrow> line_of lc (em @ ys) i = line_of lc em i"
  by (simp add: line_of_def token_number_append nth_append)

lemma build_step_cases:
  "build_step lc b x =
     (if skipped lc x then b
      else if due_token lc x then
        b \<lparr> b_refs := (b_refs b)(token (refCounter b + 1) \<mapsto> the (backendDOMNodeId x)),
            b_lines := b_lines b @ [base_line lc x @ '' [@'' @ token (refCounter b + 1) @ '']''],
            refCounter := refCounter b + 1 \<rparr>
      else b \<lparr> b_lines := b_lines b @ [base_line lc x] \<rparr>)"
  by (auto simp: build_step_def due_token_def shouldHaveRef_def token_def split: option.splits)

lemma build_invariant:
  "refCounter (build lc ns) = length (filter (due_token lc) (emitted lc ns)) \<and>
   b_lines (build lc ns) = map (line_of lc (emitted lc ns)) [0..<length (emitted lc ns)] \<and>
   (\<forall>i < length (emitted lc ns). due_token lc (emitted lc ns ! i) \<longrightarrow>
      b_refs (build lc ns) (token (token_number lc (emitted lc ns) i)) = backendDOMNodeId (emitted lc ns ! i)) \<and>
   (\<forall>t. b_refs (build lc ns) t \<noteq> None \<longrightarrow>
      (\<exists>i < length (emitted lc ns). due_token lc (emitted lc ns ! i) \<and> t = token (token_number lc (emitted lc ns) i)))"
proof (induction ns rule: rev_induct)
  case Nil
  show ?case by (simp add: build_def emitted_def)
next
  case (snoc x ns)
  define em where "em = emitted lc ns"
  define b where "b = build lc ns"
  have c: "refCounter b = length (filter (due_token lc) em)"
    and l: "b_lines b = map (line_of lc em) [0..<length em]"
    and r1: "\<And>i. i < length em \<Longrightarrow> due_token lc (em ! i) \<Longrightarrow>
        b_refs b (token (token_number lc em i)) = backendDOMNodeId (em ! i)"
    and r2: "\<And>t. b_refs b t \<noteq> None \<Longrightarrow>
        \<exists>i < length em. due_token lc (em ! i) \<and> t = token (token_number lc em i)"
    using snoc unfolding em_def b_def by blast+
  show ?case
  proof (cases "skipped lc x")
    case True
    then show ?thesis using snoc by (simp add: build_snoc emitted_snoc build_step_cases)
  next
    case False
    have em': "emitted lc (ns @ [x]) = em @ [x]" using False by (simp add: emitted_snoc em_def)
    have lines_old: "map (line_of lc (em @ [x])) [0..<length em] = map (line_of lc em) [0..<length em]"
      by (simp add: line_of_append)
    have tn: "token_number lc (em @ [x]) (length em) = refCounter b + 1"
      by (simp add: token_number_def c)
    show ?thesis
    proof (cases "due_token lc x")
      case True
      have b': "build lc (ns @ [x]) =
          b \<lparr> b_refs := (b_refs b)(token (refCounter b + 1) \<mapsto> the (backendDOMNodeId x)),
              b_lines := b_lines b @ [base_line lc x @ '' [@'' @ token (refCounter b + 1) @ '']''],
              refCounter := refCounter b + 1 \<rparr>"
        using False True by (simp add: build_snoc build_step_cases b_def)
      have h: "backendDOMNodeId x = Some (the (backendDOMNodeId x))"
        using True by (auto simp: due_token_def)
      have p1: "refCounter (build lc (ns @ [x])) = length (filter (due_token lc) (emitted lc (ns @ [x])))"
        using True by (simp add: b' em' c)
      have p2: "b_lines (build lc (ns @ [x])) =
          map (line_of lc (emitted lc (ns @ [x]))) [0..<length (emitted lc (ns @ [x]))]"
        using True by (simp add: b' em' l lines_old line_of_def tn)
      have p3: "b_refs (build lc (ns @ [x])) (token (token_number lc (emitted lc (ns @ [x])) i)) =
            backendDOMNodeId (emitted lc (ns @ [x]) ! i)"
        if i: "i < length (emitted lc (ns @ [x]))" and d: "due_token lc (emitted lc (ns @ [x]) ! i)" for i
      proof (cases "i < length em")
        case True
        then have d': "due_token lc (em ! i)" using d by (simp add: em' nth_append)
        have "token_number lc em i \<le> refCounter b" using token_number_le [OF True d'] c by simp
        then have "token (token_number lc em i) \<noteq> token (refCounter b + 1)"
          using token_inj by fastforce
        then show ?thesis using True r1 [OF True d']
          by (simp add: b' em' token_number_append nth_append)
      next
        case False
        then have "i = length em" using i by (simp add: em')
        then show ?thesis using h by (simp add: b' em' tn)
      qed
      have p4: "\<exists>i < length (emitted lc (ns @ [x])). due_token lc (emitted lc (ns @ [x]) ! i) \<and>
            t = token (token_number lc (emitted lc (ns @ [x])) i)"
        if t: "b_refs (build lc (ns @ [x])) t \<noteq> None" for t
      proof (cases "t = token (refCounter b + 1)")
        case True
        then have "length em < length (em @ [x]) \<and> due_token lc ((em @ [x]) ! length em) \<and>
            t = token (token_number lc (em @ [x]) (length em))"
          using \<open>due_token lc x\<close> by (simp add: tn)
        then show ?thesis unfolding em' by blast
      next
        case False
        then have "b_refs b t \<noteq> None" using t by (simp add: b')
        from r2 [OF this] obtain i where "i < length em" "due_token lc (em ! i)"
          "t = token (token_number lc em i)" by blast
        then have "i < length (em @ [x]) \<and> due_token lc ((em @ [x]) ! i) \<and>
            t = token (token_number lc (em @ [x]) i)"
          by (simp add: nth_append token_number_append)
        then show ?thesis unfolding em' by blast
      qed
      from p1 p2 p3 p4 show ?thesis by blast
    next
      case nd: False
      have b': "build lc (ns @ [x]) = b \<lparr> b_lines := b_lines b @ [base_line lc x] \<rparr>"
        using False nd by (simp add: build_snoc build_step_cases b_def)
      have p1: "refCounter (build lc (ns @ [x])) = length (filter (due_token lc) (emitted lc (ns @ [x])))"
        using nd by (simp add: b' em' c)
      have p2: "b_lines (build lc (ns @ [x])) =
          map (line_of lc (emitted lc (ns @ [x]))) [0..<length (emitted lc (ns @ [x]))]"
        using nd by (simp add: b' em' l lines_old line_of_def)
      have p3: "b_refs (build lc (ns @ [x])) (token (token_number lc (emitted lc (ns @ [x])) i)) =
            backendDOMNodeId (emitted lc (ns @ [x]) ! i)"
        if i: "i < length (emitted lc (ns @ [x]))" and d: "due_token lc (emitted lc (ns @ [x]) ! i)" for i
      proof -
        have "i < length em" using i d nd by (cases "i = length em") (auto simp: em')
        moreover from this have "due_token lc (em ! i)" using d by (simp add: em' nth_append)
        ultimately show ?thesis using r1 [of i]
          by (simp add: b' em' token_number_append nth_append)
      qed
      have p4: "\<exists>i < length (emitted lc (ns @ [x])). due_token lc (emitted lc (ns @ [x]) ! i) \<and>
            t = token (token_number lc (emitted lc (ns @ [x])) i)"
        if t: "b_refs (build lc (ns @ [x])) t \<noteq> None" for t
      proof -
        have "b_refs b t \<noteq> None" using t by (simp add: b')
        from r2 [OF this] obtain i where "i < length em" "due_token lc (em ! i)"
          "t = token (token_number lc em i)" by blast
        then have "i < length (em @ [x]) \<and> due_token lc ((em @ [x]) ! i) \<and>
            t = token (token_number lc (em @ [x]) i)"
          by (simp add: nth_append token_number_append)
        then show ?thesis unfolding em' by blast
      qed
      from p1 p2 p3 p4 show ?thesis by blast
    qed
  qed
qed

lemma structural_no_token: "isStructural lc n \<Longrightarrow> \<not> due_token lc n"
  by (auto simp: isStructural_def due_token_def isInteractive_def isContent_def
      STRUCTURAL_ROLES_def INTERACTIVE_ROLES_def CONTENT_ROLES_def)

lemma structural_unnamed_skipped: "isStructural lc n \<Longrightarrow> name n = [] \<Longrightarrow> skipped lc n"
  by (simp add: skipped_def)

lemma line_of_not_empty: "line_of lc em i \<noteq> []"
  by (simp add: line_of_def base_line_def)

lemma join_lines_empty: "join_lines ls = [] \<longleftrightarrow> ls = [] \<or> ls = [[]]"
  by (induction ls rule: join_lines.induct) simp_all

lemma rendered_text:
  "snap_text (buildSnapshot lc ns) =
     (if emitted lc ns = [] then ''(empty page)''
      else join_lines (map (line_of lc (emitted lc ns)) [0..<length (emitted lc ns)]))"
proof -
  have l: "b_lines (build lc ns) = map (line_of lc (emitted lc ns)) [0..<length (emitted lc ns)]"
    using build_invariant [of lc ns] by blast
  show ?thesis
  proof (cases "emitted lc ns = []")
    case True
    then show ?thesis by (simp add: buildSnapshot_def l)
  next
    case False
    then have n: "map (line_of lc (emitted lc ns)) [0..<length (emitted lc ns)] \<noteq> []" by simp
    have "map (line_of lc (emitted lc ns)) [0..<length (emitted lc ns)] \<noteq> [[]]"
    proof
      assume "map (line_of lc (emitted lc ns)) [0..<length (emitted lc ns)] = [[]]"
      then have "[] \<in> set (map (line_of lc (emitted lc ns)) [0..<length (emitted lc ns)])"
        by simp
      then show False using line_of_not_empty [of lc "emitted lc ns"] by (auto dest: sym)
    qed
    with n have "join_lines (map (line_of lc (emitted lc ns)) [0..<length (emitted lc ns)]) \<noteq> []"
      by (simp add: join_lines_empty)
    then show ?thesis using False by (simp add: buildSnapshot_def l)
  qed
qed

text \<open>
  C3. Let the emitted nodes be the nodes that no \<^verbatim>\<open>continue\<close> of the loop drops, in order.
  The text of the rendered snapshot is the lines of the emitted nodes, one per node, joined
  by newlines (and \<open>(empty page)\<close> when there is none); the loop's \<open>lines\<close> are these same
  lines. The line of an emitted node is its base line followed by \<open>[@eN]\<close> exactly when the
  node carries a DOM handle and its role (lower-cased, as the source compares it) is
  interactive, or a content role with a non-empty name; \<open>N\<close> is one more than the number of
  such nodes emitted before it, so tokens run \<open>e1\<close>, \<open>e2\<close>, ... in emission order. The
  reference map of the snapshot sends each such token to the DOM handle of its node and
  holds no other key, and different numbers give different tokens. A node with a structural
  role is never due a token, and one with an empty name is not among the emitted nodes, so
  no line of the text is its.
\<close>

theorem snapshot_tokens:
  "snap_text (buildSnapshot lc ns) =
     (if emitted lc ns = [] then ''(empty page)''
      else join_lines
        (map (\<lambda>i. base_line lc (emitted lc ns ! i) @
                  (if due_token lc (emitted lc ns ! i)
                   then '' [@'' @ token (token_number lc (emitted lc ns) i) @ '']'' else []))
           [0..<length (emitted lc ns)])) \<and>
   length (b_lines (build lc ns)) = length (emitted lc ns) \<and>
   (\<forall>i < length (emitted lc ns).
      b_lines (build lc ns) ! i =
        base_line lc (emitted lc ns ! i) @
          (if due_token lc (emitted lc ns ! i)
           then '' [@'' @ token (token_number lc (emitted lc ns) i) @ '']'' else [])) \<and>
   (\<forall>i < length (emitted lc ns). due_token lc (emitted lc ns ! i) \<longrightarrow>
      snap_refs (buildSnapshot lc ns) (token (token_number lc (emitted lc ns) i)) =
        backendDOMNodeId (emitted lc ns ! i)) \<and>
   (\<forall>t. snap_refs (buildSnapshot lc ns) t \<noteq> None \<longrightarrow>
      (\<exists>i < length (emitted lc ns). due_token lc (emitted lc ns ! i) \<and>
         t = token (token_number lc (emitted lc ns) i))) \<and>
   (\<forall>i < length (emitted lc ns). \<forall>j < length (emitted lc ns).
      token (token_number lc (emitted lc ns) i) = token (token_number lc (emitted lc ns) j) \<longrightarrow>
      token_number lc (emitted lc ns) i = token_number lc (emitted lc ns) j) \<and>
   (isStructural lc n \<longrightarrow> \<not> due_token lc n) \<and>
   (isStructural lc n \<and> name n = [] \<longrightarrow> n \<notin> set (emitted lc ns))"
proof -
  note inv = build_invariant [of lc ns]
  have l: "b_lines (build lc ns) = map (line_of lc (emitted lc ns)) [0..<length (emitted lc ns)]"
    using inv by blast
  have lo: "line_of lc (emitted lc ns) =
      (\<lambda>i. base_line lc (emitted lc ns ! i) @
                  (if due_token lc (emitted lc ns ! i)
                   then '' [@'' @ token (token_number lc (emitted lc ns) i) @ '']'' else []))"
    by (rule ext) (simp add: line_of_def)
  have 0: "snap_text (buildSnapshot lc ns) =
     (if emitted lc ns = [] then ''(empty page)''
      else join_lines
        (map (\<lambda>i. base_line lc (emitted lc ns ! i) @
                  (if due_token lc (emitted lc ns ! i)
                   then '' [@'' @ token (token_number lc (emitted lc ns) i) @ '']'' else []))
           [0..<length (emitted lc ns)]))"
    using rendered_text [of lc ns] unfolding lo .
  have 1: "length (b_lines (build lc ns)) = length (emitted lc ns)" by (simp add: l)
  have 2: "\<forall>i < length (emitted lc ns).
      b_lines (build lc ns) ! i =
        base_line lc (emitted lc ns ! i) @
          (if due_token lc (emitted lc ns ! i)
           then '' [@'' @ token (token_number lc (emitted lc ns) i) @ '']'' else [])"
    by (simp add: l line_of_def)
  have 3: "\<forall>i < length (emitted lc ns). due_token lc (emitted lc ns ! i) \<longrightarrow>
      snap_refs (buildSnapshot lc ns) (token (token_number lc (emitted lc ns) i)) =
        backendDOMNodeId (emitted lc ns ! i)"
    using inv by (simp add: buildSnapshot_def)
  have 4: "\<forall>t. snap_refs (buildSnapshot lc ns) t \<noteq> None \<longrightarrow>
      (\<exists>i < length (emitted lc ns). due_token lc (emitted lc ns ! i) \<and>
         t = token (token_number lc (emitted lc ns) i))"
    using inv by (simp add: buildSnapshot_def)
  have 5: "\<forall>i < length (emitted lc ns). \<forall>j < length (emitted lc ns).
      token (token_number lc (emitted lc ns) i) = token (token_number lc (emitted lc ns) j) \<longrightarrow>
      token_number lc (emitted lc ns) i = token_number lc (emitted lc ns) j"
    using token_inj by blast
  have 6: "isStructural lc n \<longrightarrow> \<not> due_token lc n" using structural_no_token by blast
  have 7: "isStructural lc n \<and> name n = [] \<longrightarrow> n \<notin> set (emitted lc ns)"
    using structural_unnamed_skipped by (auto simp: emitted_def)
  from 0 1 2 3 4 5 6 7 show ?thesis by blast
qed

lemma emitted_page0:
  "emitted ascii_lower page0 =
     [sn ''main'' ''Shop'' (Some 10) 0, sn ''list'' ''Items'' (Some 12) 1,
      sn ''Button'' ''Submit'' (Some 13) 2, sn ''link'' ''Home'' None 2,
      sn ''heading'' [] (Some 14) 1, sn ''heading'' ''News'' (Some 15) 1]"
  by code_simp

lemma page0_facts:
  "due_token ascii_lower (sn ''Button'' ''Submit'' (Some 13) 2)"
  "token_number ascii_lower (emitted ascii_lower page0) 2 = 2"
  "token 2 = ''e2''"
  "isStructural ascii_lower (sn ''list'' ''Items'' (Some 12) 1)"
  "isStructural ascii_lower (sn ''generic'' [] (Some 11) 1)"
  "name (sn ''generic'' [] (Some 11) 1) = []"
  by code_simp+

lemma page0_text:
  "(if emitted ascii_lower page0 = [] then ''(empty page)''
    else join_lines
      (map (\<lambda>i. base_line ascii_lower (emitted ascii_lower page0 ! i) @
                (if due_token ascii_lower (emitted ascii_lower page0 ! i)
                 then '' [@'' @ token (token_number ascii_lower (emitted ascii_lower page0) i) @ '']''
                 else []))
         [0..<length (emitted ascii_lower page0)])) =
   join_lines
     [''- main '' @ dq @ ''Shop'' @ dq @ '' [@e1]'',
      ''  - list '' @ dq @ ''Items'' @ dq,
      ''    - button '' @ dq @ ''Submit'' @ dq @ '' [@e2]'',
      ''    - link '' @ dq @ ''Home'' @ dq,
      ''  - heading'',
      ''  - heading '' @ dq @ ''News'' @ dq @ '' [@e3]'']"
  unfolding emitted_page0 by code_simp

text \<open>
  The theorem on \<open>page0\<close>, with the mapping of ASCII text: the text has six lines, the
  unnamed \<open>generic\<close> node having none; the button, whose role is capitalised, is the third
  emitted node and the second one due a token; the link without DOM handle, the named list
  and the unnamed heading keep their lines without a token.
\<close>

theorem snapshot_tokens_witness:
  "snap_text (buildSnapshot ascii_lower page0) =
     join_lines
       [''- main '' @ dq @ ''Shop'' @ dq @ '' [@e1]'',
        ''  - list '' @ dq @ ''Items'' @ dq,
        ''    - button '' @ dq @ ''Submit'' @ dq @ '' [@e2]'',
        ''    - link '' @ dq @ ''Home'' @ dq,
        ''  - heading'',
        ''  - heading '' @ dq @ ''News'' @ dq @ '' [@e3]''] \<and>
   snap_refs (buildSnapshot ascii_lower page0) ''e2'' = Some 13 \<and>
   \<not> due_token ascii_lower (sn ''list'' ''Items'' (Some 12) 1) \<and>
   sn ''generic'' [] (Some 11) 1 \<notin> set (emitted ascii_lower page0)"
proof -
  have i: "2 < length (emitted ascii_lower page0)" by (simp add: emitted_page0)
  have n: "emitted ascii_lower page0 ! 2 = sn ''Button'' ''Submit'' (Some 13) 2"
    by (simp add: emitted_page0)
  have h: "backendDOMNodeId (sn ''Button'' ''Submit'' (Some 13) 2) = Some 13" by (simp add: sn_def)
  note t1 = snapshot_tokens [of ascii_lower page0 "sn ''list'' ''Items'' (Some 12) 1"]
  note t2 = snapshot_tokens [of ascii_lower page0 "sn ''generic'' [] (Some 11) 1"]
  from t1 have a: "snap_text (buildSnapshot ascii_lower page0) =
     join_lines
       [''- main '' @ dq @ ''Shop'' @ dq @ '' [@e1]'',
        ''  - list '' @ dq @ ''Items'' @ dq,
        ''    - button '' @ dq @ ''Submit'' @ dq @ '' [@e2]'',
        ''    - link '' @ dq @ ''Home'' @ dq,
        ''  - heading'',
        ''  - heading '' @ dq @ ''News'' @ dq @ '' [@e3]'']"
    unfolding page0_text by blast
  from t1 i have "due_token ascii_lower (emitted ascii_lower page0 ! 2) \<longrightarrow>
      snap_refs (buildSnapshot ascii_lower page0)
        (token (token_number ascii_lower (emitted ascii_lower page0) 2)) =
        backendDOMNodeId (emitted ascii_lower page0 ! 2)"
    by blast
  then have b: "snap_refs (buildSnapshot ascii_lower page0) ''e2'' = Some 13"
    by (simp add: n page0_facts h)
  from t1 have c: "\<not> due_token ascii_lower (sn ''list'' ''Items'' (Some 12) 1)"
    using page0_facts(4) by blast
  from t2 have d: "sn ''generic'' [] (Some 11) 1 \<notin> set (emitted ascii_lower page0)"
    using page0_facts(5,6) by blast
  from a b c d show ?thesis by blast
qed

section \<open>Tabs, history and the reference map of the agent\<close>

lemma map_of_js_delete: "map_of (js_delete k m) k = None"
  by (induction m) (auto simp: js_delete_def)

text \<open>
  C8, as amended. \<open>closeTab\<close> of the tab manager always issues the close-target command
  for the tab. When the command is answered with a result, whatever the result holds (it is
  not read), \<open>closeTab\<close> returns and the record of the tab is gone from the table. When the
  command is rejected, \<open>closeTab\<close> throws the command's error and the table is as before;
  while the command stays unanswered, \<open>closeTab\<close> hangs and the table is as before.
\<close>

theorem closeTab_outcomes:
  "calls (cdp (snd (closeTab tab t))) = calls (cdp t) @ [close_cmd tab] \<and>
   (\<forall>r rest. replies (cdp t) = Reply r # rest \<longrightarrow>
      fst (closeTab tab t) = Returns () \<and>
      tabs (snd (closeTab tab t)) = js_delete tab (tabs t) \<and>
      getTab tab (snd (closeTab tab t)) = None) \<and>
   (\<forall>e rest. replies (cdp t) = Failure e # rest \<longrightarrow>
      fst (closeTab tab t) = Throws e \<and> tabs (snd (closeTab tab t)) = tabs t) \<and>
   (replies (cdp t) = [] \<or> (\<exists>rest. replies (cdp t) = Silence # rest) \<longrightarrow>
      fst (closeTab tab t) = Hangs \<and> tabs (snd (closeTab tab t)) = tabs t)"
  by (auto simp: closeTab_def await_def on_cdp_def cdp_send_def close_cmd_def getTab_def
      map_of_js_delete Let_def split: list.splits reply.splits)

text \<open>The theorem on a manager tracking tab \<open>T1\<close>, with the command answered and rejected.\<close>

theorem closeTab_outcomes_witness:
  "fst (closeTab ''T1'' manager1) = Returns () \<and> getTab ''T1'' (snd (closeTab ''T1'' manager1)) = None \<and>
   fst (closeTab ''T1'' manager0) = Throws ''No target with given id found'' \<and>
   tabs (snd (closeTab ''T1'' manager0)) = tabs manager0"
  using closeTab_outcomes [of "''T1''" manager1] closeTab_outcomes [of "''T1''" manager0]
  by (simp add: manager1_def manager0_def)

text \<open>
  C8 as stated fails: with tab \<open>T1\<close> tracked and the close-target command rejected,
  \<open>closeTab\<close> has issued the command, throws, and the record of \<open>T1\<close> is still in the table.
\<close>

theorem closeTab_failure_counterexample:
  "getTab ''T1'' manager0 \<noteq> None \<and>
   calls (cdp (snd (closeTab ''T1'' manager0))) = [close_cmd ''T1''] \<and>
   fst (closeTab ''T1'' manager0) = Throws ''No target with given id found'' \<and>
   getTab ''T1'' (snd (closeTab ''T1'' manager0)) \<noteq> None"
  by (simp add: closeTab_def await_def on_cdp_def cdp_send_def close_cmd_def getTab_def manager0_def)

lemma at_index_Some_iff:
  "at_index xs i = Some x \<longleftrightarrow> 0 \<le> i \<and> i < int (length xs) \<and> x = xs ! nat i"
  by (auto simp: at_index_def)

lemma at_index_None_iff: "at_index xs i = None \<longleftrightarrow> \<not> (0 \<le> i \<and> i < int (length xs))"
  by (auto simp: at_index_def)

lemma await_send_Reply:
  "replies w = Reply r # rest \<Longrightarrow>
   await (cdp_send m ps sid) k w =
     k r (w \<lparr> calls := calls w @ [\<lparr> cmd_method = m, cmd_params = ps, cmd_sessionId = sid \<rparr>],
             replies := rest \<rparr>)"
  by (simp add: await_def cdp_send_def Let_def)

lemma await_send_Failure:
  "replies w = Failure e # rest \<Longrightarrow>
   await (cdp_send m ps sid) k w =
     (Throws e,
      w \<lparr> calls := calls w @ [\<lparr> cmd_method = m, cmd_params = ps, cmd_sessionId = sid \<rparr>],
          replies := rest \<rparr>)"
  by (simp add: await_def cdp_send_def Let_def)

lemma goBack_eq:
  assumes "replies w = Reply h # rest"
  shows "goBack sid w =
     (case at_index (history_entries h) (history_index h - 1) of
        None \<Rightarrow> (Returns (), w \<lparr> calls := calls w @ [history_cmd sid], replies := rest \<rparr>)
      | Some e \<Rightarrow>
          await (cdp_send ''Page.navigateToHistoryEntry'' (Some [(''entryId'', P_int e)]) sid)
            (\<lambda>_. returns ()) (w \<lparr> calls := calls w @ [history_cmd sid], replies := rest \<rparr>))"
  by (auto simp: goBack_def await_send_Reply [OF assms] Let_def history_cmd_def history_index_def
      history_entries_def returns_def at_index_def)

lemma goForward_eq:
  assumes "replies w = Reply h # rest"
  shows "goForward sid w =
     (case at_index (history_entries h) (history_index h + 1) of
        None \<Rightarrow> (Returns (), w \<lparr> calls := calls w @ [history_cmd sid], replies := rest \<rparr>)
      | Some e \<Rightarrow>
          await (cdp_send ''Page.navigateToHistoryEntry'' (Some [(''entryId'', P_int e)]) sid)
            (\<lambda>_. returns ()) (w \<lparr> calls := calls w @ [history_cmd sid], replies := rest \<rparr>))"
  by (auto simp: goForward_def await_send_Reply [OF assms] Let_def history_cmd_def history_index_def
      history_entries_def returns_def at_index_def)

lemma entry_step_calls:
  "calls (snd (await (cdp_send ''Page.navigateToHistoryEntry'' (Some [(''entryId'', P_int e)]) sid)
            (\<lambda>_. returns ()) w)) = calls w @ [entry_cmd e sid]"
  by (auto simp: await_def cdp_send_def Let_def returns_def entry_cmd_def
      split: list.splits reply.splits)

text \<open>
  C9. Let the history command be answered with \<open>h\<close>, the current index default to 0 and
  the entries to the empty list. \<open>goBack\<close> issues the history command and then, when there
  is an entry at the current index minus one, one navigate-to-history-entry command for the
  id of that entry; when there is none it returns without error, having issued the history
  command only. \<open>goForward\<close> does the same with the entry at the current index plus one.
\<close>

theorem history_navigation:
  assumes "replies w = Reply h # rest"
  shows
  "(\<forall>e. at_index (history_entries h) (history_index h - 1) = Some e \<longrightarrow>
      calls (snd (goBack sid w)) = calls w @ [history_cmd sid, entry_cmd e sid]) \<and>
   (at_index (history_entries h) (history_index h - 1) = None \<longrightarrow>
      goBack sid w = (Returns (), w \<lparr> calls := calls w @ [history_cmd sid], replies := rest \<rparr>)) \<and>
   (\<forall>e. at_index (history_entries h) (history_index h + 1) = Some e \<longrightarrow>
      calls (snd (goForward sid w)) = calls w @ [history_cmd sid, entry_cmd e sid]) \<and>
   (at_index (history_entries h) (history_index h + 1) = None \<longrightarrow>
      goForward sid w = (Returns (), w \<lparr> calls := calls w @ [history_cmd sid], replies := rest \<rparr>))"
  by (simp add: goBack_eq [OF assms] goForward_eq [OF assms] entry_step_calls)

lemma history_world_facts:
  "history_index (History_result (Some i) (Some [10, 20, 30])) = i"
  "history_entries (History_result (Some i) (Some [10, 20, 30])) = [10, 20, 30]"
  "at_index [10, 20, 30 :: int] 1 = Some 20"
  "at_index [10, 20, 30 :: int] (-1) = None"
  "at_index [10, 20, 30 :: int] 3 = None"
  "at_index [10, 20, 30 :: int] 0 = Some 10"
  by (simp_all add: history_index_def history_entries_def at_index_def)

text \<open>The theorem on a history of three entries, at current index 1, 0 and 2.\<close>

theorem history_navigation_witness:
  "calls (snd (goBack (Some ''S1'') (history_world 1))) =
     [history_cmd (Some ''S1''), entry_cmd 10 (Some ''S1'')] \<and>
   goBack (Some ''S1'') (history_world 0) =
     (Returns (), (history_world 0) \<lparr> calls := [history_cmd (Some ''S1'')], replies := [Reply No_result] \<rparr>) \<and>
   calls (snd (goForward (Some ''S1'') (history_world 0))) =
     [history_cmd (Some ''S1''), entry_cmd 20 (Some ''S1'')] \<and>
   goForward (Some ''S1'') (history_world 2) =
     (Returns (), (history_world 2) \<lparr> calls := [history_cmd (Some ''S1'')], replies := [Reply No_result] \<rparr>)"
proof -
  have r: "replies (history_world i) =
      Reply (History_result (Some i) (Some [10, 20, 30])) # [Reply No_result]" for i
    by (simp add: history_world_def)
  have c: "calls (history_world i) = []" for i by (simp add: history_world_def)
  show ?thesis
    using history_navigation [OF r [of 1], of "Some ''S1''"]
      history_navigation [OF r [of 0], of "Some ''S1''"]
      history_navigation [OF r [of 2], of "Some ''S1''"]
    by (simp add: history_world_facts c)
qed

lemma await_clear_fst:
  "fst (await (on_client m) (\<lambda>_. clear_refs) a) =
     (case fst (m (cdp (mgr a))) of Returns x \<Rightarrow> Returns () | Throws e \<Rightarrow> Throws e | Hangs \<Rightarrow> Hangs)"
  by (cases "m (cdp (mgr a))")
     (simp add: await_def on_client_def on_cdp_def clear_refs_def split: outcome.splits)

lemma await_clear_refs:
  "refs (snd (await (on_client m) (\<lambda>_. clear_refs) a)) =
     (case fst (m (cdp (mgr a))) of Returns x \<Rightarrow> Map.empty | Throws e \<Rightarrow> refs a | Hangs \<Rightarrow> refs a)"
  by (cases "m (cdp (mgr a))")
     (simp add: await_def on_client_def on_cdp_def clear_refs_def split: outcome.splits)

lemma await_clear_refs_returns:
  "fst (await (on_client m) (\<lambda>_. clear_refs) a) = Returns x \<Longrightarrow>
   refs (snd (await (on_client m) (\<lambda>_. clear_refs) a)) = Map.empty"
  by (simp add: await_clear_fst await_clear_refs split: outcome.splits)

lemma switchTab_returns:
  "fst (switchTab tab a) = Returns x \<Longrightarrow> refs (snd (switchTab tab a)) = Map.empty"
  by (auto simp: switchTab_def throw_def split: option.splits)

lemma agent_closeTab_returns:
  assumes "fst (agent_closeTab t a) = Returns x" and "t = None \<or> t = currentTabId a"
  shows "refs (snd (agent_closeTab t a)) = Map.empty"
proof -
  have target: "(case t of None \<Rightarrow> currentTabId a | Some u \<Rightarrow> Some u) = currentTabId a"
    using assms(2) by (auto split: option.splits)
  obtain res m' where c: "closeTab (the (currentTabId a)) (mgr a) = (res, m')"
    by (cases "closeTab (the (currentTabId a)) (mgr a)")
  show ?thesis
  proof (cases "truthy (currentTabId a)")
    case False
    then show ?thesis using assms(1) by (simp add: agent_closeTab_def target throw_def)
  next
    case True
    then show ?thesis
      using assms(1)
      by (cases res) (simp_all add: agent_closeTab_def target await_def on_tabs_def c)
  qed
qed

lemma resolveRef_empty: "resolveRef r Map.empty \<noteq> Inr h"
  by (simp add: resolveRef_def split: option.splits)

text \<open>
  C5, as amended. For every agent state, each of navigate, back, forward, reload, switching
  tabs and closing the current tab (no tab given, or the current one), when it returns
  without error, leaves the reference map empty; and an empty map resolves no reference, so
  a token valid before the operation is invalid after it.
\<close>

theorem navigation_clears_refs:
  "(fst (agent_navigate u a) = Returns () \<longrightarrow> refs (snd (agent_navigate u a)) = Map.empty) \<and>
   (fst (agent_back a) = Returns () \<longrightarrow> refs (snd (agent_back a)) = Map.empty) \<and>
   (fst (agent_forward a) = Returns () \<longrightarrow> refs (snd (agent_forward a)) = Map.empty) \<and>
   (fst (agent_reload a) = Returns () \<longrightarrow> refs (snd (agent_reload a)) = Map.empty) \<and>
   (fst (switchTab tab a) = Returns () \<longrightarrow> refs (snd (switchTab tab a)) = Map.empty) \<and>
   (fst (agent_closeTab t a) = Returns () \<and> (t = None \<or> t = currentTabId a) \<longrightarrow>
      refs (snd (agent_closeTab t a)) = Map.empty) \<and>
   resolveRef r Map.empty \<noteq> Inr h"
proof (intro conjI impI)
  show "refs (snd (agent_navigate u a)) = Map.empty" if "fst (agent_navigate u a) = Returns ()"
    using that unfolding agent_navigate_def by (rule await_clear_refs_returns)
  show "refs (snd (agent_back a)) = Map.empty" if "fst (agent_back a) = Returns ()"
    using that unfolding agent_back_def by (rule await_clear_refs_returns)
  show "refs (snd (agent_forward a)) = Map.empty" if "fst (agent_forward a) = Returns ()"
    using that unfolding agent_forward_def by (rule await_clear_refs_returns)
  show "refs (snd (agent_reload a)) = Map.empty" if "fst (agent_reload a) = Returns ()"
    using that unfolding agent_reload_def by (rule await_clear_refs_returns)
  show "refs (snd (switchTab tab a)) = Map.empty" if "fst (switchTab tab a) = Returns ()"
    using that by (rule switchTab_returns)
  show "refs (snd (agent_closeTab t a)) = Map.empty"
    if "fst (agent_closeTab t a) = Returns () \<and> (t = None \<or> t = currentTabId a)"
    using that agent_closeTab_returns by blast
  show "resolveRef r Map.empty \<noteq> Inr h" by (rule resolveRef_empty)
qed

lemma navigate_loading:
  "fst (navigate u sid (cdp (mgr loading_agent))) = Returns ()"
  by (simp add: navigate_def await_def cdp_send_def await_load_def truthy_def returns_def
      loading_agent_def agent0_def)

lemma loading_agent_navigate: "fst (agent_navigate ''https://a.example'' loading_agent) = Returns ()"
  using navigate_loading [of "''https://a.example''" "currentSessionId loading_agent"]
  by (simp add: agent_navigate_def await_clear_fst)

text \<open>The theorem on an agent whose map holds \<open>e1\<close> and whose navigation succeeds.\<close>

theorem navigation_clears_refs_witness:
  "refs loading_agent ''e1'' = Some 7 \<and>
   fst (agent_navigate ''https://a.example'' loading_agent) = Returns () \<and>
   refs (snd (agent_navigate ''https://a.example'' loading_agent)) = Map.empty"
  using navigation_clears_refs [of "''https://a.example''" loading_agent] loading_agent_navigate
  by (simp add: loading_agent_def agent0_def)

text \<open>
  C5 as stated fails: when the navigate command answers with an error text, navigate throws
  before the map is cleared, and \<open>e1\<close> still resolves after the operation.
\<close>

theorem failed_navigation_counterexample:
  "fst (agent_navigate ''https://nowhere.example'' failing_agent) =
     Throws ''Navigation failed: net::ERR_NAME_NOT_RESOLVED'' \<and>
   refs (snd (agent_navigate ''https://nowhere.example'' failing_agent)) ''e1'' = Some 7 \<and>
   resolveRef ''@e1'' (refs (snd (agent_navigate ''https://nowhere.example'' failing_agent))) = Inr 7"
proof -
  have n: "fst (navigate ''https://nowhere.example'' (currentSessionId failing_agent)
             (cdp (mgr failing_agent))) = Throws ''Navigation failed: net::ERR_NAME_NOT_RESOLVED''"
    by (simp add: navigate_def await_def cdp_send_def truthy_def throw_def failing_agent_def
        agent0_def)
  have r: "refs failing_agent = [''e1'' \<mapsto> 7]" by (simp add: failing_agent_def agent0_def)
  have t: "strip_at (trim ''@e1'') = ''e1''" by code_simp
  show ?thesis
    using n by (simp add: agent_navigate_def await_clear_fst await_clear_refs r t
        resolveRef_cases is_digit_def)
qed

section \<open>Correlation and teardown in the protocol client\<close>

lemma map_of_replace:
  "map_of (map (\<lambda>(a, b). if a = k then (a, v) else (a, b)) m) k' =
     (if k' = k then map_option (\<lambda>_. v) (map_of m k) else map_of m k')"
  by (induction m) auto

lemma map_of_js_set:
  "map_of (js_set k v m) k' = (if k' = k then Some v else map_of m k')"
proof (cases "k \<in> fst ` set m")
  case True
  then obtain x where "map_of m k = Some x"
    by (metis map_of_eq_None_iff not_None_eq)
  with True show ?thesis by (simp add: js_set_def map_of_replace)
next
  case False
  then have "map_of m k = None" by (simp add: map_of_eq_None_iff)
  with False show ?thesis by (auto simp: js_set_def map_add_def split: option.splits)
qed

lemma map_of_js_delete_other: "k' \<noteq> k \<Longrightarrow> map_of (js_delete k m) k' = map_of m k'"
  by (induction m) (auto simp: js_delete_def)

lemma set_js_delete: "set (js_delete k m) \<subseteq> set m"
  by (auto simp: js_delete_def)

lemma distinct_js_delete:
  "distinct (map f m) \<Longrightarrow> distinct (map f (js_delete k m))"
  by (simp add: js_delete_def distinct_map_filter)

lemma length_settle: "length (settle p outcome ps) = length ps"
  by (simp add: settle_def)

lemma nth_settle_other: "q \<noteq> p \<Longrightarrow> settle p outcome ps ! q = ps ! q"
  by (simp add: settle_def)

lemma settle_unsettled:
  "p < length ps \<Longrightarrow> ps ! p = Unsettled \<Longrightarrow> settle p outcome ps = ps[p := outcome]"
  by (simp add: settle_def)

lemma inv_init: "client_inv (createCdpClient rs)"
  by (simp add: client_inv_def createCdpClient_def)

lemma inv_send: "client_inv c \<Longrightarrow> client_inv (snd (send m ps sid c))"
proof -
  assume inv: "client_inv c"
  show ?thesis
  proof (cases "readyState c = OPEN")
    case False
    then show ?thesis using inv
      by (auto simp: send_def client_inv_def nth_append)
  next
    case True
    have fresh: "nextId c \<notin> fst ` set (pending c)"
      using inv by (force simp: client_inv_def)
    have hfresh: "length (promises c) \<notin> snd ` set (pending c)"
      using inv by (force simp: client_inv_def)
    have p: "js_set (nextId c) (length (promises c)) (pending c) =
        pending c @ [(nextId c, length (promises c))]"
      using fresh by (simp add: js_set_def)
    show ?thesis using inv True fresh hfresh
      by (auto simp: send_def client_inv_def p nth_append)
  qed
qed

lemma inv_on_message: "client_inv c \<Longrightarrow> client_inv (on_message data c)"
proof -
  assume inv: "client_inv c"
  show ?thesis
  proof (cases data)
    case None then show ?thesis using inv by (simp add: on_message_def)
  next
    case (Some msg)
    show ?thesis
    proof (cases "msg_id msg")
      case None
      then show ?thesis using inv Some
        by (auto simp: on_message_def dispatchEvent_def client_inv_def split: option.splits)
    next
      case (Some i)
      note i = this
      show ?thesis
      proof (cases "map_of (pending c) i")
        case None
        then show ?thesis using inv i \<open>data = Some msg\<close> by (simp add: on_message_def)
      next
        case (Some p)
        then have mem: "(i, p) \<in> set (pending c)" by (rule map_of_SomeD)
        have c': "on_message data c =
            c \<lparr> pending := js_delete i (pending c),
                promises := settle p (response_outcome msg) (promises c) \<rparr>"
          using i Some \<open>data = Some msg\<close> by (simp add: on_message_def)
        have inj: "inj_on snd (set (pending c))"
          using inv by (simp add: client_inv_def distinct_map)
        have other: "q \<noteq> p" if "(j, q) \<in> set (js_delete i (pending c))" for j q
        proof
          assume "q = p"
          from that have jq: "(j, q) \<in> set (pending c)" and ji: "j \<noteq> i"
            by (auto simp: js_delete_def)
          have "(j, q) = (i, p)"
            by (rule inj_onD [OF inj _ jq mem]) (simp add: \<open>q = p\<close>)
          with ji show False by simp
        qed
        have old: "j < nextId c \<and> q < length (promises c) \<and> promises c ! q = Unsettled"
          if "(j, q) \<in> set (js_delete i (pending c))" for j q
        proof -
          from that have "(j, q) \<in> set (pending c)" by (auto simp: js_delete_def)
          with inv show ?thesis by (auto simp: client_inv_def)
        qed
        have d1: "distinct (map fst (js_delete i (pending c)))"
          using inv by (simp add: client_inv_def distinct_js_delete)
        have d2: "distinct (map snd (js_delete i (pending c)))"
          using inv by (simp add: client_inv_def distinct_js_delete)
        have all: "\<forall>(j, q) \<in> set (js_delete i (pending c)).
            j < nextId c \<and> q < length (settle p (response_outcome msg) (promises c)) \<and>
            settle p (response_outcome msg) (promises c) ! q = Unsettled"
          using old other by (auto simp: length_settle nth_settle_other)
        show ?thesis unfolding c' client_inv_def using d1 d2 all by simp
      qed
    qed
  qed
qed

lemma inv_step: "client_inv c \<Longrightarrow> client_inv (step c ev)"
proof (cases ev)
  case (Call_send m ps sid)
  assume "client_inv c" then show ?thesis using Call_send by (simp add: inv_send)
next
  case (Socket_message d)
  assume "client_inv c" then show ?thesis using Socket_message by (simp add: inv_on_message)
qed (auto simp: client_inv_def on_def off_def close_def closeWithError_def split: option.splits)

lemma inv_run: "client_inv c \<Longrightarrow> client_inv (run c evs)"
  unfolding run_def by (induction evs arbitrary: c) (simp_all add: inv_step)

lemma waiting_step:
  assumes "waiting n p c" and "leaves_waiting n ev"
  shows "waiting n p (step c ev)"
proof -
  have inv: "client_inv (step c ev)" using assms(1) by (simp add: waiting_def inv_step)
  have m: "map_of (pending c) n = Some p" and lt: "n < nextId c"
    using assms(1) by (simp_all add: waiting_def)
  have "map_of (pending (step c ev)) n = Some p \<and> n < nextId (step c ev)"
  proof (cases ev)
    case (Call_send me ps sid)
    then show ?thesis using m lt by (auto simp: send_def map_of_js_set)
  next
    case (Socket_message d)
    show ?thesis
    proof (cases d)
      case None
      then show ?thesis using Socket_message m lt by (simp add: on_message_def)
    next
      case (Some msg)
      then have "msg_id msg \<noteq> Some n" using assms(2) Socket_message by simp
      then show ?thesis using Socket_message Some m lt
        by (auto simp: on_message_def dispatchEvent_def map_of_js_delete_other
            split: option.splits)
    qed
  qed (use assms(2) m lt in \<open>auto simp: on_def off_def split: option.splits\<close>)
  with inv show ?thesis by (simp add: waiting_def)
qed

lemma waiting_run:
  "waiting n p c \<Longrightarrow> list_all (leaves_waiting n) evs \<Longrightarrow> waiting n p (run c evs)"
  unfolding run_def by (induction evs arbitrary: c) (simp_all add: waiting_step)

lemma send_waiting:
  assumes "client_inv c" and "readyState c = OPEN"
  shows "waiting (nextId c) (fst (send m ps sid c)) (snd (send m ps sid c))"
  using inv_send [OF assms(1), of m ps sid] assms(2)
  by (simp add: waiting_def) (simp add: send_def map_of_js_set)

lemma response_settles:
  assumes "waiting n p c" and "msg_id msg = Some n"
  shows "p < length (promises c) \<and> promises c ! p = Unsettled \<and>
     on_message (Some msg) c =
       c \<lparr> pending := js_delete n (pending c),
           promises := (promises c)[p := response_outcome msg] \<rparr>"
proof -
  have m: "map_of (pending c) n = Some p" using assms(1) by (simp add: waiting_def)
  then have "(n, p) \<in> set (pending c)" by (rule map_of_SomeD)
  then have p: "p < length (promises c)" "promises c ! p = Unsettled"
    using assms(1) by (auto simp: waiting_def client_inv_def)
  show ?thesis using p m assms(2) by (simp add: on_message_def settle_unsettled)
qed

lemma unmatched_response:
  "msg_id msg = Some k \<Longrightarrow> map_of (pending d) k = None \<Longrightarrow> on_message (Some msg) d = d"
  by (simp add: on_message_def)

text \<open>
  C1, as amended. Take any state \<open>c0\<close> the client can reach, with the socket open, and a
  call of \<open>send\<close> in it: the call is assigned the id \<open>nextId c0\<close> and returns a promise.
  Let any events follow that neither tear the transport down nor answer that id: more calls
  of \<open>send\<close>, responses to other ids in any order, events, unparsable frames. Then the
  promise is still unsettled, and a response carrying that id settles exactly it: the
  promise list changes at that promise only, and the pending map loses that id only. The
  promise is rejected with the protocol's message when the response has an error payload
  with a non-empty message; without error payload, or with one whose message is missing or
  empty, it is resolved with the result. In any state, a response whose id has no pending
  entry leaves the client exactly as it was.
\<close>

theorem response_correlation:
  assumes "c0 = run (createCdpClient rs) evs0" and "readyState c0 = OPEN"
    and "list_all (leaves_waiting (nextId c0)) evs"
    and "c = run (snd (send m ps sid c0)) evs"
    and "msg_id msg = Some (nextId c0)"
  shows "fst (send m ps sid c0) < length (promises c) \<and>
     promises c ! fst (send m ps sid c0) = Unsettled \<and>
     on_message (Some msg) c =
       c \<lparr> pending := js_delete (nextId c0) (pending c),
           promises := (promises c)[fst (send m ps sid c0) := response_outcome msg] \<rparr> \<and>
     (\<forall>k. k \<noteq> nextId c0 \<longrightarrow>
        map_of (pending (on_message (Some msg) c)) k = map_of (pending c) k) \<and>
     (\<forall>e. msg_error msg = Some (Some e) \<and> e \<noteq> [] \<longrightarrow> response_outcome msg = Rejected e) \<and>
     (msg_error msg = None \<or> msg_error msg = Some None \<or> msg_error msg = Some (Some []) \<longrightarrow>
        response_outcome msg = Resolved (msg_result msg)) \<and>
     (msg_id other = Some k \<and> map_of (pending d) k = None \<longrightarrow> on_message (Some other) d = d)"
proof -
  have "client_inv c0" using assms(1) by (simp add: inv_run inv_init)
  then have "waiting (nextId c0) (fst (send m ps sid c0)) (snd (send m ps sid c0))"
    using assms(2) by (rule send_waiting)
  then have w: "waiting (nextId c0) (fst (send m ps sid c0)) c"
    unfolding assms(4) using assms(3) by (rule waiting_run)
  note r = response_settles [OF w assms(5)]
  have o: "\<forall>k. k \<noteq> nextId c0 \<longrightarrow>
        map_of (pending (on_message (Some msg) c)) k = map_of (pending c) k"
    using r by (simp add: map_of_js_delete_other)
  have e1: "\<forall>e. msg_error msg = Some (Some e) \<and> e \<noteq> [] \<longrightarrow> response_outcome msg = Rejected e"
    by (simp add: response_outcome_def)
  have e2: "msg_error msg = None \<or> msg_error msg = Some None \<or> msg_error msg = Some (Some []) \<longrightarrow>
        response_outcome msg = Resolved (msg_result msg)"
    by (auto simp: response_outcome_def)
  have u: "msg_id other = Some k \<and> map_of (pending d) k = None \<longrightarrow> on_message (Some other) d = d"
    by (simp add: unmatched_response)
  from r o e1 e2 u show ?thesis by blast
qed

lemma client1_facts:
  "readyState client1 = OPEN" "nextId client1 = 2"
  "fst (send ''Page.navigate'' None None client1) = 1"
  "list_all (leaves_waiting 2) others"
  "promises client2 = [Resolved (Some 10), Unsettled, Resolved (Some 30)]"
  "pending client2 = [(2, 1)]"
  by code_simp+

text \<open>
  The theorem on \<open>client2\<close>: the command with id 2 was sent second and is answered last;
  its response settles the second promise, and a response to the unknown id 7 changes nothing.
\<close>

theorem response_correlation_witness:
  "promises client2 = [Resolved (Some 10), Unsettled, Resolved (Some 30)] \<and>
   promises (on_message (Some (response 2 20)) client2) =
     [Resolved (Some 10), Resolved (Some 20), Resolved (Some 30)] \<and>
   pending (on_message (Some (response 2 20)) client2) = [] \<and>
   on_message (Some (response 7 70)) client2 = client2"
proof -
  have l: "list_all (leaves_waiting (nextId client1)) others" by (simp add: client1_facts)
  have i: "msg_id (response 2 20) = Some (nextId client1)" by (simp add: response_def client1_facts)
  have u: "msg_id (response 7 70) = Some 7 \<and> map_of (pending client2) 7 = None"
    by (simp add: response_def client1_facts)
  note t = response_correlation [OF client1_def client1_facts(1) l client2_def i,
      of "response 7 70" 7 client2]
  have o: "response_outcome (response 2 20) = Resolved (Some 20)"
    by (simp add: response_outcome_def response_def)
  from t u have "on_message (Some (response 7 70)) client2 = client2" by blast
  moreover from t have "on_message (Some (response 2 20)) client2 =
       client2 \<lparr> pending := js_delete (nextId client1) (pending client2),
           promises := (promises client2)[fst (send ''Page.navigate'' None None client1) :=
             response_outcome (response 2 20)] \<rparr>" by blast
  ultimately show ?thesis by (simp add: client1_facts o js_delete_def)
qed

text \<open>
  C1 as stated fails: a response to the pending id 1 that carries an error payload without
  message, or with an empty one, resolves the promise instead of rejecting it.
\<close>

theorem error_without_message_counterexample:
  "pending client1 = [(1, 0)] \<and> promises client1 = [Unsettled] \<and>
   msg_error (error_response 1 None) = Some None \<and>
   promises (on_message (Some (error_response 1 None)) client1) = [Resolved None] \<and>
   promises (on_message (Some (error_response 1 (Some []))) client1) = [Resolved None]"
  by code_simp

lemma foldl_settle_length:
  "length (foldl (\<lambda>ps (i, p). settle p outcome ps) ps pend) = length ps"
  by (induction pend arbitrary: ps) (auto simp: length_settle)

lemma foldl_settle_keeps:
  "ps ! q \<noteq> Unsettled \<Longrightarrow> foldl (\<lambda>ps (i, p). settle p outcome ps) ps pend ! q = ps ! q"
proof (induction pend arbitrary: ps)
  case Nil then show ?case by simp
next
  case (Cons x pend)
  obtain j p where x: "x = (j, p)" by (cases x)
  have s: "settle p outcome ps ! q = ps ! q"
    using Cons.prems by (cases "q = p") (simp_all add: settle_def)
  then have "settle p outcome ps ! q \<noteq> Unsettled" using Cons.prems by simp
  from Cons.IH [OF this] s show ?case by (simp add: x)
qed

lemma foldl_settle_rejects:
  "(i, p) \<in> set pend \<Longrightarrow> p < length ps \<Longrightarrow> ps ! p = Unsettled \<Longrightarrow>
   foldl (\<lambda>ps (i, p). settle p (Rejected err) ps) ps pend ! p = Rejected err"
proof (induction pend arbitrary: ps)
  case Nil then show ?case by simp
next
  case (Cons x pend)
  obtain j q where x: "x = (j, q)" by (cases x)
  show ?case
  proof (cases "q = p")
    case True
    have "settle q (Rejected err) ps ! p = Rejected err"
      using Cons.prems True by (simp add: settle_def)
    then show ?thesis
      using foldl_settle_keeps [of "settle q (Rejected err) ps" p "Rejected err" pend]
      by (simp add: x)
  next
    case False
    then have "(i, p) \<in> set pend" using Cons.prems(1) x by auto
    moreover have "p < length (settle q (Rejected err) ps)"
      using Cons.prems(2) by (simp add: length_settle)
    moreover have "settle q (Rejected err) ps ! p = Unsettled"
      using Cons.prems(3) False by (simp add: nth_settle_other)
    ultimately show ?thesis using Cons.IH by (simp add: x)
  qed
qed

lemma closeWithError_rejects:
  assumes "client_inv c" and "(i, p) \<in> set (pending c)"
  shows "promises (closeWithError err (c \<lparr> readyState := r \<rparr>)) ! p = Rejected err"
proof -
  have "p < length (promises c)" "promises c ! p = Unsettled"
    using assms by (auto simp: client_inv_def)
  then show ?thesis using assms(2) by (simp add: closeWithError_def foldl_settle_rejects)
qed

lemma teardown_closes:
  "teardown ev \<Longrightarrow>
   closed_or_closing (readyState (step c ev)) \<and> pending (step c ev) = [] \<and>
   listeners (step c ev) = listeners c"
  by (cases ev)
     (auto simp: close_def closeWithError_def ws_close_def closed_or_closing_def
       split: ready_state.splits)

lemma closed_step: "closed_or_closing (readyState c) \<Longrightarrow> closed_or_closing (readyState (step c ev))"
  by (cases ev)
     (auto simp: send_def on_def off_def close_def closeWithError_def ws_close_def
       on_message_def dispatchEvent_def closed_or_closing_def
       split: option.splits ready_state.splits)

lemma closed_run: "closed_or_closing (readyState c) \<Longrightarrow> closed_or_closing (readyState (run c evs))"
  unfolding run_def by (induction evs arbitrary: c) (simp_all add: closed_step)

lemma send_when_closed:
  "closed_or_closing (readyState d) \<Longrightarrow>
   send m ps sid d = (length (promises d), d \<lparr> promises := promises d @ [Rejected not_open] \<rparr>)"
  by (auto simp: send_def closed_or_closing_def)

lemma foldl_settle_unsettled:
  "foldl (\<lambda>ps (i, p). settle p outcome ps) ps pend ! q = Unsettled \<Longrightarrow> ps ! q = Unsettled"
  using foldl_settle_keeps [of ps q outcome pend] by (cases "ps ! q = Unsettled") simp_all

lemma response_outcome_settled: "response_outcome msg \<noteq> Unsettled"
  by (simp add: response_outcome_def split: option.splits)

lemma tracked_init: "tracked (createCdpClient rs)"
  by (simp add: tracked_def createCdpClient_def)

lemma tracked_send:
  assumes inv: "client_inv c" and tr: "tracked c"
  shows "tracked (snd (send m ps sid c))"
proof (cases "readyState c = OPEN")
  case False
  then show ?thesis using tr
    by (auto simp: send_def tracked_def nth_append less_Suc_eq)
next
  case True
  have fresh: "nextId c \<notin> fst ` set (pending c)"
    using inv by (force simp: client_inv_def)
  have p: "js_set (nextId c) (length (promises c)) (pending c) =
      pending c @ [(nextId c, length (promises c))]"
    using fresh by (simp add: js_set_def)
  show ?thesis using tr True
    by (auto simp: send_def tracked_def p nth_append less_Suc_eq)
qed

lemma tracked_on_message:
  assumes inv: "client_inv c" and tr: "tracked c"
  shows "tracked (on_message data c)"
proof (cases data)
  case None then show ?thesis using tr by (simp add: on_message_def)
next
  case (Some msg)
  show ?thesis
  proof (cases "msg_id msg")
    case None
    then show ?thesis using tr Some
      by (auto simp: on_message_def dispatchEvent_def tracked_def split: option.splits)
  next
    case (Some i)
    note i = this
    show ?thesis
    proof (cases "map_of (pending c) i")
      case None
      then show ?thesis using tr i \<open>data = Some msg\<close> by (simp add: on_message_def)
    next
      case (Some p)
      then have mem: "(i, p) \<in> set (pending c)" by (rule map_of_SomeD)
      have c': "on_message data c =
          c \<lparr> pending := js_delete i (pending c),
              promises := settle p (response_outcome msg) (promises c) \<rparr>"
        using i Some \<open>data = Some msg\<close> by (simp add: on_message_def)
      have pl: "p < length (promises c)" and pu: "promises c ! p = Unsettled"
        using inv mem by (auto simp: client_inv_def)
      have dk: "distinct (map fst (pending c))" using inv by (simp add: client_inv_def)
      have "q \<in> snd ` set (js_delete i (pending c))"
        if q: "q < length (promises c)"
          and u: "settle p (response_outcome msg) (promises c) ! q = Unsettled" for q
      proof -
        have qp: "q \<noteq> p"
        proof
          assume "q = p"
          then have "settle p (response_outcome msg) (promises c) ! q = response_outcome msg"
            using pl pu by (simp add: settle_def)
          with u response_outcome_settled show False by metis
        qed
        then have "promises c ! q = Unsettled" using u by (simp add: nth_settle_other)
        with tr q obtain j where j: "(j, q) \<in> set (pending c)"
          by (auto simp: tracked_def)
        have "j \<noteq> i"
        proof
          assume "j = i"
          with j mem dk have "q = p" by (auto dest: eq_key_imp_eq_value)
          with qp show False by simp
        qed
        with j have "(j, q) \<in> set (js_delete i (pending c))" by (simp add: js_delete_def)
        then show ?thesis by force
      qed
      then show ?thesis unfolding c' tracked_def by (simp add: length_settle)
    qed
  qed
qed

lemma tracked_closeWithError:
  assumes inv: "client_inv c" and tr: "tracked c"
  shows "tracked (closeWithError err (c \<lparr> readyState := r \<rparr>))"
proof -
  have False
    if q: "q < length (promises c)"
      and u: "promises (closeWithError err (c \<lparr> readyState := r \<rparr>)) ! q = Unsettled" for q
  proof -
    from u have "promises c ! q = Unsettled"
      by (simp add: closeWithError_def foldl_settle_unsettled)
    with tr q obtain j where "(j, q) \<in> set (pending c)" by (auto simp: tracked_def)
    from closeWithError_rejects [OF inv this, of err r] u show False by simp
  qed
  then show ?thesis
    by (auto simp: tracked_def closeWithError_def foldl_settle_length)
qed

lemma tracked_step:
  assumes "client_inv c" and "tracked c" and "ev \<noteq> Call_close"
  shows "tracked (step c ev)"
proof (cases ev)
  case (Call_send m ps sid)
  then show ?thesis using assms by (simp add: tracked_send)
next
  case (Socket_message d)
  then show ?thesis using assms by (simp add: tracked_on_message)
next
  case (Socket_error err)
  then show ?thesis using tracked_closeWithError [OF assms(1,2), of err "readyState c"] by simp
next
  case Socket_close
  then show ?thesis using tracked_closeWithError [OF assms(1,2), of socket_closed CLOSED] by simp
qed (use assms in \<open>auto simp: tracked_def on_def off_def split: option.splits\<close>)

lemma tracked_run:
  "client_inv c \<Longrightarrow> tracked c \<Longrightarrow> Call_close \<notin> set evs \<Longrightarrow> tracked (run c evs)"
proof (induction evs arbitrary: c)
  case Nil then show ?case by (simp add: run_def)
next
  case (Cons ev evs)
  have "client_inv (step c ev)" using Cons.prems(1) by (rule inv_step)
  moreover have "tracked (step c ev)" using Cons.prems by (auto intro: tracked_step)
  ultimately have "tracked (run (step c ev) evs)" using Cons.IH Cons.prems(3) by simp
  then show ?case by (simp add: run_def)
qed

text \<open>
  C2, as amended. In any state the client can reach without a call of \<open>close\<close>, every
  command whose promise is unsettled is rejected by a socket error, with the socket's error,
  and by a socket close, with the socket-closed error, and the pending map is empty
  afterwards. In any state whatever, each of the three teardowns (these two and a call of
  \<open>close\<close>) leaves the listener registrations as they were, and whatever happens later,
  every call of \<open>send\<close> returns a promise already rejected with the not-open error and
  changes nothing else in the client: nothing is transmitted.
\<close>

theorem teardown_effects:
  "(c = run (createCdpClient rs) evs0 \<and> Call_close \<notin> set evs0 \<longrightarrow>
      (\<forall>p < length (promises c). promises c ! p = Unsettled \<longrightarrow>
         promises (step c (Socket_error err)) ! p = Rejected err \<and>
         promises (step c Socket_close) ! p = Rejected socket_closed) \<and>
      pending (step c (Socket_error err)) = [] \<and> pending (step c Socket_close) = []) \<and>
   (teardown ev \<longrightarrow>
      listeners (step d ev) = listeners d \<and>
      send m ps sid (run (step d ev) evs) =
        (length (promises (run (step d ev) evs)),
         (run (step d ev) evs)
           \<lparr> promises := promises (run (step d ev) evs) @ [Rejected not_open] \<rparr>))"
proof (intro conjI impI)
  assume h: "c = run (createCdpClient rs) evs0 \<and> Call_close \<notin> set evs0"
  then have inv: "client_inv c" by (simp add: inv_run inv_init)
  have tr: "tracked c" using h by (simp add: tracked_run inv_init tracked_init)
  show "\<forall>p < length (promises c). promises c ! p = Unsettled \<longrightarrow>
         promises (step c (Socket_error err)) ! p = Rejected err \<and>
         promises (step c Socket_close) ! p = Rejected socket_closed"
  proof (intro allI impI)
    fix p assume "p < length (promises c)" "promises c ! p = Unsettled"
    with tr obtain i where i: "(i, p) \<in> set (pending c)" by (auto simp: tracked_def)
    show "promises (step c (Socket_error err)) ! p = Rejected err \<and>
         promises (step c Socket_close) ! p = Rejected socket_closed"
      using closeWithError_rejects [OF inv i, of err "readyState c"]
        closeWithError_rejects [OF inv i, of socket_closed CLOSED] by simp
  qed
  show "pending (step c (Socket_error err)) = []" by (simp add: closeWithError_def)
  show "pending (step c Socket_close) = []" by (simp add: closeWithError_def)
next
  assume t: "teardown ev"
  note tc = teardown_closes [OF t, of d]
  then show "listeners (step d ev) = listeners d" by simp
  from tc have "closed_or_closing (readyState (run (step d ev) evs))" by (simp add: closed_run)
  from send_when_closed [OF this]
  show "send m ps sid (run (step d ev) evs) =
        (length (promises (run (step d ev) evs)),
         (run (step d ev) evs)
           \<lparr> promises := promises (run (step d ev) evs) @ [Rejected not_open] \<rparr>)" .
qed

lemma client3_facts:
  "promises client3 = [Unsettled]"
  "Call_close \<notin> set ([Socket_open, Call_on ''Page.loadEventFired'' 7,
     Call_send ''Page.enable'' None None] :: nat event list)"
  "listeners client3 = [(''Page.loadEventFired'', [7])]"
  "transmitted (run (step client3 (Socket_error ''ECONNRESET'')) [Socket_open]) = transmitted client3"
  "promises (run (step client3 (Socket_error ''ECONNRESET'')) [Socket_open]) = [Rejected ''ECONNRESET'']"
  by code_simp+

text \<open>
  The theorem on \<open>client3\<close>: its one promise is unsettled, and is rejected by a socket
  error and by a socket close; the listener stays registered, and a later call of \<open>send\<close>
  is rejected without a frame being transmitted.
\<close>

theorem teardown_effects_witness:
  "promises (step client3 (Socket_error ''ECONNRESET'')) ! 0 = Rejected ''ECONNRESET'' \<and>
   promises (step client3 Socket_close) ! 0 = Rejected socket_closed \<and>
   pending (step client3 (Socket_error ''ECONNRESET'')) = [] \<and>
   pending (step client3 Socket_close) = [] \<and>
   listeners (step client3 (Socket_error ''ECONNRESET'')) = [(''Page.loadEventFired'', [7])] \<and>
   promises (snd (send ''Page.reload'' None None
       (run (step client3 (Socket_error ''ECONNRESET'')) [Socket_open]))) =
     [Rejected ''ECONNRESET'', Rejected not_open] \<and>
   transmitted (snd (send ''Page.reload'' None None
       (run (step client3 (Socket_error ''ECONNRESET'')) [Socket_open]))) = transmitted client3"
proof -
  note t = teardown_effects [where c = client3 and rs = CONNECTING
      and ?evs0.0 = "[Socket_open, Call_on ''Page.loadEventFired'' 7,
        Call_send ''Page.enable'' None None]"
      and err = "''ECONNRESET''" and ev = "Socket_error ''ECONNRESET''" and d = client3
      and m = "''Page.reload''" and ps = None and sid = None and evs = "[Socket_open]"]
  have td: "teardown (Socket_error ''ECONNRESET'' :: nat event)" by simp
  have h: "client3 = run (createCdpClient CONNECTING) [Socket_open,
      Call_on ''Page.loadEventFired'' 7, Call_send ''Page.enable'' None None] \<and>
      Call_close \<notin> set ([Socket_open, Call_on ''Page.loadEventFired'' 7,
        Call_send ''Page.enable'' None None] :: nat event list)"
    using client3_def client3_facts(2) by blast
  have u: "0 < length (promises client3)" "promises client3 ! 0 = Unsettled"
    by (simp_all only: client3_facts) simp_all
  from t h have g: "(\<forall>p < length (promises client3). promises client3 ! p = Unsettled \<longrightarrow>
         promises (step client3 (Socket_error ''ECONNRESET'')) ! p = Rejected ''ECONNRESET'' \<and>
         promises (step client3 Socket_close) ! p = Rejected socket_closed)"
    and b: "pending (step client3 (Socket_error ''ECONNRESET'')) = []"
      "pending (step client3 Socket_close) = []"
    by blast+
  from g u have a: "promises (step client3 (Socket_error ''ECONNRESET'')) ! 0 = Rejected ''ECONNRESET''"
      "promises (step client3 Socket_close) ! 0 = Rejected socket_closed"
    by blast+
  from t td have "listeners (step client3 (Socket_error ''ECONNRESET'')) = listeners client3"
    by blast
  then have l: "listeners (step client3 (Socket_error ''ECONNRESET'')) =
      [(''Page.loadEventFired'', [7])]"
    by (simp only: client3_facts)
  define dd where "dd = run (step client3 (Socket_error ''ECONNRESET'')) [Socket_open]"
  have f: "promises dd = [Rejected ''ECONNRESET'']" "transmitted dd = transmitted client3"
    unfolding dd_def by (rule client3_facts)+
  from t td have "send ''Page.reload'' None None dd =
      (length (promises dd), dd \<lparr> promises := promises dd @ [Rejected not_open] \<rparr>)"
    unfolding dd_def by blast
  then have "promises (snd (send ''Page.reload'' None None dd)) =
      [Rejected ''ECONNRESET'', Rejected not_open]"
    and "transmitted (snd (send ''Page.reload'' None None dd)) = transmitted client3"
    by (simp_all add: f)
  then have c: "promises (snd (send ''Page.reload'' None None
       (run (step client3 (Socket_error ''ECONNRESET'')) [Socket_open]))) =
     [Rejected ''ECONNRESET'', Rejected not_open]"
    and d: "transmitted (snd (send ''Page.reload'' None None
       (run (step client3 (Socket_error ''ECONNRESET'')) [Socket_open]))) = transmitted client3"
    unfolding dd_def by blast+
  from a b l c d show ?thesis by blast
qed

text \<open>
  C2 as stated fails on \<open>client3\<close>: after a call of \<open>close\<close> and the socket's close event the
  command that was pending is still unsettled, and after a close or an error the listener
  registered for the load event is still registered.
\<close>

theorem close_drops_pending_counterexample:
  "pending client3 = [(1, 0)] \<and> promises client3 = [Unsettled] \<and>
   promises (run client3 [Call_close, Socket_close]) = [Unsettled] \<and>
   listeners (run client3 [Call_close, Socket_close]) = [(''Page.loadEventFired'', [7])] \<and>
   listeners (step client3 (Socket_error ''ECONNRESET'')) = [(''Page.loadEventFired'', [7])]"
  by code_simp

end
